theory Spec2Isabelle
  imports Complex_Main "HOL-Library.Multiset"
begin

section \<open>Errors\<close>

text \<open>
  Every \<^verbatim>\<open>raise\<close> and \<^verbatim>\<open>assert\<close> of the Python sources, and every exception of the
  tensor libraries (PyTorch, NumPy) that the modelled code can run into, is a value
  of this type. A function that can fail returns \<open>error + 'a\<close>, \<open>Inl\<close> being the
  exception.
\<close>

datatype error =
    ValueError_size int
  | ValueError_backbone string
  | ValueError_neck string
  | AssertionError
  | RuntimeError_negative_dimension int
  | RuntimeError_shape
  | ValueError_broadcast
  | ValueError_concatenate
  | IndexError
  | ValueError_groups
  | Error_in_backbone string
  | Error_in_neck string

section \<open>main.py: post-processing of one image\<close>

text \<open>
  The evaluation loop of \<^verbatim>\<open>main.py\<close> for one image \<open>i\<close>, from the decoded boxes and
  the score matrix to \<^verbatim>\<open>all_boxes[j][i]\<close> for every class \<open>j\<close>. A row of a detection
  array \<^verbatim>\<open>(x1, y1, x2, y2, score)\<close> is a box with its score, an array of shape
  \<open>(k, 5)\<close> the list of its rows, \<^verbatim>\<open>np.empty([0, 5])\<close> the empty list. Scores are only
  compared, never computed with, so they are taken as real numbers; a NaN score
  fails \<^verbatim>\<open>score > thresh\<close> and does not get past the first step.
\<close>

type_synonym box = "real \<times> real \<times> real \<times> real"

type_synonym det = "box \<times> real"

definition thresh :: real where
  "thresh = 5 / 1000"

definition max_per_image :: nat where
  "max_per_image = 300"

text \<open>\<^verbatim>\<open>a[inds]\<close> for a list of row indices: every index must be in range.\<close>

definition take_rows :: "'a list \<Rightarrow> nat list \<Rightarrow> error + 'a list" where
  "take_rows a inds =
     (if list_all (\<lambda>k. k < length a) inds then Inr (map (\<lambda>k. a ! k) inds) else Inl IndexError)"

text \<open>\<^verbatim>\<open>scores[:, c]\<close> for a matrix given by its rows.\<close>

definition column :: "real list list \<Rightarrow> nat \<Rightarrow> error + real list" where
  "column m c =
     (if list_all (\<lambda>r. c < length r) m then Inr (map (\<lambda>r. r ! c) m) else Inl IndexError)"

text \<open>\<^verbatim>\<open>np.where(col > thresh)[0]\<close>: the indices of the entries above the threshold.\<close>

definition where_above :: "real list \<Rightarrow> nat list" where
  "where_above col = filter (\<lambda>k. col ! k > thresh) [0..<length col]"

text \<open>
  Lines 210 to 216 for one class, \<open>col\<close> being \<^verbatim>\<open>scores[:, j - 1]\<close>: the array \<^verbatim>\<open>c_dets\<close>
  that is handed to \<^verbatim>\<open>nms\<close>, or nothing when no score is above the threshold.
\<close>

definition nms_candidates :: "box list \<Rightarrow> real list \<Rightarrow> error + det list option" where
  "nms_candidates boxes col =
     (let inds = where_above col
      in if length inds = 0 then Inr None
         else (case take_rows boxes inds of
                 Inl e \<Rightarrow> Inl e
               | Inr c_bboxes \<Rightarrow>
                   (case take_rows col inds of
                      Inl e \<Rightarrow> Inl e
                    | Inr c_scores \<Rightarrow> Inr (Some (zip c_bboxes c_scores)))))"

text \<open>
  What \<^verbatim>\<open>all_boxes[j][i]\<close> holds. \<^verbatim>\<open>all_boxes\<close> is created as a table of empty Python
  lists \<^verbatim>\<open>[]\<close>; the loop over the classes replaces an entry by a NumPy array of shape
  \<open>(k, 5)\<close>. The two are different values: the cap reads the last column \<^verbatim>\<open>[:, -1]\<close>
  of the entry of every object class, which an array has, also the array
  \<^verbatim>\<open>np.empty([0, 5])\<close> without rows, and a list has not.
\<close>

datatype entry = PyList | Array "det list"

text \<open>
  The store \<^verbatim>\<open>all_boxes[j][i] = v\<close> on the column of image \<open>i\<close>; an index outside the
  table is an \<^verbatim>\<open>IndexError\<close>.
\<close>

definition store :: "entry list \<Rightarrow> nat \<Rightarrow> entry \<Rightarrow> error + entry list" where
  "store all_boxes_i j v =
     (if j < length all_boxes_i then Inr (all_boxes_i[j := v]) else Inl IndexError)"

text \<open>
  The loop \<^verbatim>\<open>for j in range(1, num_classes)\<close>, lines 209 to 219, with
  \<^verbatim>\<open>all_boxes[.][i]\<close> as its state. When no score of the class is above the
  threshold, the body stores \<^verbatim>\<open>np.empty([0, 5])\<close> and goes on to the next class
  (\<^verbatim>\<open>continue\<close>); otherwise it calls \<^verbatim>\<open>nms\<close> on the candidates and stores the rows
  \<^verbatim>\<open>c_dets[keep, :]\<close>. \<^verbatim>\<open>utils.box.nms\<close> is outside the sources and stays a
  parameter; it returns the indices of the rows to keep. Entry 0, the background,
  is never assigned and stays the list it was created as.
\<close>

fun class_loop ::
  "(det list \<Rightarrow> real \<Rightarrow> nat list) \<Rightarrow> real \<Rightarrow> box list \<Rightarrow> real list list \<Rightarrow> nat list \<Rightarrow>
   entry list \<Rightarrow> error + entry list"
where
  "class_loop nms nms_thresh boxes scores [] all_boxes_i = Inr all_boxes_i"
| "class_loop nms nms_thresh boxes scores (j # js) all_boxes_i =
     (case column scores (j - 1) of
        Inl e \<Rightarrow> Inl e
      | Inr col \<Rightarrow>
          (case nms_candidates boxes col of
             Inl e \<Rightarrow> Inl e
           | Inr None \<Rightarrow>
               (case store all_boxes_i j (Array []) of
                  Inl e \<Rightarrow> Inl e
                | Inr all_boxes_i' \<Rightarrow> class_loop nms nms_thresh boxes scores js all_boxes_i')
           | Inr (Some c_dets) \<Rightarrow>
               (case take_rows c_dets (nms c_dets nms_thresh) of
                  Inl e \<Rightarrow> Inl e
                | Inr kept \<Rightarrow>
                    (case store all_boxes_i j (Array kept) of
                       Inl e \<Rightarrow> Inl e
                     | Inr all_boxes_i' \<Rightarrow>
                         class_loop nms nms_thresh boxes scores js all_boxes_i'))))"

text \<open>
  Line 187 creates the table; its column for one image is \<^verbatim>\<open>num_classes\<close> empty
  lists.
\<close>

definition detect_classes ::
  "(det list \<Rightarrow> real \<Rightarrow> nat list) \<Rightarrow> real \<Rightarrow> nat \<Rightarrow> box list \<Rightarrow> real list list \<Rightarrow>
   error + entry list"
where
  "detect_classes nms nms_thresh num_classes boxes scores =
     class_loop nms nms_thresh boxes scores [1..<num_classes] (replicate num_classes PyList)"

text \<open>
  Lines 220 to 226, the cap, on the arrays that \<^verbatim>\<open>all_boxes[.][i]\<close> holds for the
  \<^verbatim>\<open>num_classes\<close> classes after the loop above (entry 0 is neither read nor written).
  \<^verbatim>\<open>image_scores\<close> is the last column of every class array, class after class;
  \<^verbatim>\<open>np.hstack\<close> of no arrays at all (a class count of 1 or 0) is an error. \<^verbatim>\<open>np.sort\<close>
  sorts in ascending order, and index \<^verbatim>\<open>-max_per_image\<close> of a longer array counts
  from its end. The second loop assigns to every class entry the rows whose score is
  at least the threshold. \<open>cap_at\<close> has the cap as an argument \<open>m\<close>; the program's cap
  is \<open>max_per_image\<close>.
\<close>

definition image_scores :: "nat \<Rightarrow> det list list \<Rightarrow> real list" where
  "image_scores num_classes all_boxes_i =
     concat (map (\<lambda>j. map snd (all_boxes_i ! j)) [1..<num_classes])"

definition keep_above :: "real \<Rightarrow> nat list \<Rightarrow> det list list \<Rightarrow> det list list" where
  "keep_above image_thresh js all_boxes_i =
     fold (\<lambda>j acc. acc[j := filter (\<lambda>d. snd d \<ge> image_thresh) (acc ! j)]) js all_boxes_i"

definition cap_at :: "nat \<Rightarrow> nat \<Rightarrow> det list list \<Rightarrow> error + det list list" where
  "cap_at m num_classes all_boxes_i =
     (if m > 0 then
        (if [1..<num_classes] = [] then Inl ValueError_concatenate
         else
           (let scs = image_scores num_classes all_boxes_i
            in if length scs > m then
                 (let image_thresh = sort scs ! (length scs - m)
                  in Inr (keep_above image_thresh [1..<num_classes] all_boxes_i))
               else Inr all_boxes_i))
      else Inr all_boxes_i)"

definition cap_image :: "nat \<Rightarrow> det list list \<Rightarrow> error + det list list" where
  "cap_image = cap_at max_per_image"

text \<open>
  The words of the specification: the \<open>k\<close>-th highest of a list of scores, and the
  number of detections of an image over its object classes.
\<close>

definition kth_highest :: "nat \<Rightarrow> real list \<Rightarrow> real" where
  "kth_highest k xs = rev (sort xs) ! (k - 1)"

definition total_dets :: "nat \<Rightarrow> det list list \<Rightarrow> nat" where
  "total_dets num_classes all_boxes_i = length (image_scores num_classes all_boxes_i)"

section \<open>models/detector.py: construction\<close>

text \<open>
  \<^verbatim>\<open>nn.Conv2d(in_channels, out_channels, kernel_size=3, padding=1)\<close>. The layer is
  kept as the hyper-parameters it was built with; its weights are drawn at random
  when the detector is built and play no role in what follows. The
  library allocates a weight of shape \<^verbatim>\<open>(out_channels, in_channels, k, k)\<close> in the
  constructor and raises a \<^verbatim>\<open>RuntimeError\<close> for a negative dimension.
\<close>

record conv2d =
  conv_in :: int
  conv_out :: int
  conv_kernel :: nat
  conv_padding :: nat

definition nn_Conv2d :: "int \<Rightarrow> int \<Rightarrow> nat \<Rightarrow> nat \<Rightarrow> error + conv2d" where
  "nn_Conv2d cin cout k p =
     (if cout < 0 then Inl (RuntimeError_negative_dimension cout)
      else if cin < 0 then Inl (RuntimeError_negative_dimension cin)
      else Inr \<lparr>conv_in = cin, conv_out = cout, conv_kernel = k, conv_padding = p\<rparr>)"

text \<open>
  \<^verbatim>\<open>multibox(fpn_level, num_anchors, num_classes, fea_channel)\<close>: the loop body
  appends one location layer, then one confidence layer; the accumulator is the
  pair of Python lists.
\<close>

fun multibox_loop ::
  "nat \<Rightarrow> int \<Rightarrow> int \<Rightarrow> int \<Rightarrow> conv2d list \<times> conv2d list \<Rightarrow> error + (conv2d list \<times> conv2d list)"
where
  "multibox_loop 0 fea_channel loc_channel cls_channel acc = Inr acc"
| "multibox_loop (Suc k) fea_channel loc_channel cls_channel (loc_layers, conf_layers) =
     (case nn_Conv2d fea_channel loc_channel 3 1 of
        Inl e \<Rightarrow> Inl e
      | Inr l \<Rightarrow>
          (case nn_Conv2d fea_channel cls_channel 3 1 of
             Inl e \<Rightarrow> Inl e
           | Inr c \<Rightarrow>
               multibox_loop k fea_channel loc_channel cls_channel
                 (loc_layers @ [l], conf_layers @ [c])))"

definition multibox :: "nat \<Rightarrow> int \<Rightarrow> int \<Rightarrow> int \<Rightarrow> error + (conv2d list \<times> conv2d list)" where
  "multibox fpn_level num_anchors num_classes fea_channel =
     (let loc_channel = num_anchors * 4;
          cls_channel = num_anchors * num_classes
      in multibox_loop fpn_level fea_channel loc_channel cls_channel ([], []))"

text \<open>
  The constructor selects a backbone class and a neck class by name and fixes the
  channel counts that go with the backbone. The classes other than
  \<^verbatim>\<open>REPVGGBackbone\<close> live outside the three source files.
\<close>

datatype backbone_kind = VGGBackbone | REPVGGBackbone | ResNetBackbone | ShuffleNetBackbone

datatype neck_kind = SSDNeck | FPNNeck | PAFPNNeck

definition select_backbone :: "string \<Rightarrow> error + (backbone_kind \<times> (int \<times> int) \<times> int)" where
  "select_backbone backbone =
     (if backbone = ''vgg16'' then Inr (VGGBackbone, (512, 512), 256)
      else if backbone = ''repvgg'' then Inr (REPVGGBackbone, (384, 1408), 256)
      else if backbone = ''resnet18'' then Inr (ResNetBackbone, (256, 512), 256)
      else if backbone = ''shufflenet'' then Inr (ShuffleNetBackbone, (232, 464), 128)
      else Inl (ValueError_backbone backbone))"

definition select_neck :: "string \<Rightarrow> error + neck_kind" where
  "select_neck neck =
     (if neck = ''ssd'' then Inr SSDNeck
      else if neck = ''fpn'' then Inr FPNNeck
      else if neck = ''pafpn'' then Inr PAFPNNeck
      else Inl (ValueError_neck neck))"

record detector =
  fpn_level :: nat
  num_classes :: int
  num_anchors :: int
  backbone :: backbone_kind
  neck :: neck_kind
  fea_channel :: int
  loc :: "conv2d list"
  conf :: "conv2d list"

text \<open>
  Building the backbone and the neck (the import of the class, then the call of its
  constructor) is work done outside \<^verbatim>\<open>Detector.__init__\<close>, and it may raise: every backbone is built with \<^verbatim>\<open>pretrained=True\<close>, and
  \<^verbatim>\<open>REPVGGBackbone.__init__\<close> then calls \<^verbatim>\<open>load_pre_trained_weights\<close>, a \<^verbatim>\<open>torch.load\<close>
  of a fixed path followed by a strict \<^verbatim>\<open>load_state_dict\<close>. Whether that succeeds
  depends on the file system, so the two constructors are parameters of the model,
  \<open>new_backbone\<close> and \<open>new_neck\<close>: they return \<open>None\<close> when the object is built and
  \<open>Some msg\<close> when an exception is raised, which then ends \<^verbatim>\<open>Detector.__init__\<close> as
  \<open>Error_in_backbone msg\<close> or \<open>Error_in_neck msg\<close>. The neck constructor receives
  \<^verbatim>\<open>(self.fpn_level, channels, fea_channel)\<close>.
\<close>

type_synonym backbone_ctor = "backbone_kind \<Rightarrow> string option"

type_synonym neck_ctor = "neck_kind \<Rightarrow> nat \<Rightarrow> int \<times> int \<Rightarrow> int \<Rightarrow> string option"

text \<open>
  The block under \<^verbatim>\<open># Params\<close> of \<^verbatim>\<open>Detector.__init__\<close>: the size check, then the
  three attributes \<^verbatim>\<open>fpn_level\<close>, \<^verbatim>\<open>num_classes\<close>, \<^verbatim>\<open>num_anchors\<close> (the
  constructor's arguments \<^verbatim>\<open>size\<close>, \<^verbatim>\<open>num_classes\<close>, \<^verbatim>\<open>backbone\<close>, \<^verbatim>\<open>neck\<close> are written
  \<open>sz\<close>, \<open>ncls\<close>, \<open>backbone_name\<close>, \<open>neck_name\<close>, the plain names being the
  attributes of the object). Python's \<^verbatim>\<open>%\<close>
  on integers is the floored remainder, as \<open>mod\<close> on \<open>int\<close> is.
\<close>

definition Detector_params :: "int \<Rightarrow> int \<Rightarrow> error + (nat \<times> int \<times> int)" where
  "Detector_params sz ncls =
     (if \<not> (sz mod 64 = 0) then Inl (ValueError_size sz)
      else Inr (if sz < 512 then 4 else 5, ncls - 1, 6))"

text \<open>
  \<^verbatim>\<open>Detector.__init__\<close>, statement after statement: the parameter block, the
  backbone (selected, then built), the neck (selected, then built), the head. The
  initialisation of the head's weights that follows \<^verbatim>\<open>multibox\<close> assigns to the
  layers just built and does not fail.
\<close>

definition Detector_init ::
  "backbone_ctor \<Rightarrow> neck_ctor \<Rightarrow> int \<Rightarrow> int \<Rightarrow> string \<Rightarrow> string \<Rightarrow> error + detector"
where
  "Detector_init new_backbone new_neck sz ncls backbone_name neck_name =
     (case Detector_params sz ncls of
        Inl e \<Rightarrow> Inl e
      | Inr (fpn, nc, na) \<Rightarrow>
          (case select_backbone backbone_name of
             Inl e \<Rightarrow> Inl e
           | Inr (bk, channels, fea) \<Rightarrow>
               (case new_backbone bk of
                  Some msg \<Rightarrow> Inl (Error_in_backbone msg)
                | None \<Rightarrow>
                    (case select_neck neck_name of
                       Inl e \<Rightarrow> Inl e
                     | Inr nk \<Rightarrow>
                         (case new_neck nk fpn channels fea of
                            Some msg \<Rightarrow> Inl (Error_in_neck msg)
                          | None \<Rightarrow>
                              (case multibox fpn na nc fea of
                                 Inl e \<Rightarrow> Inl e
                               | Inr (loc_layers, conf_layers) \<Rightarrow>
                                   Inr \<lparr>fpn_level = fpn, num_classes = nc, num_anchors = na,
                                        backbone = bk, neck = nk, fea_channel = fea,
                                        loc = loc_layers, conf = conf_layers\<rparr>))))))"

section \<open>Tensors\<close>

text \<open>
  A tensor is its shape and its elements in row-major (contiguous) order, which is
  the order \<^verbatim>\<open>.contiguous()\<close> and \<^verbatim>\<open>.view\<close> work on. The element type is left open:
  nothing below computes with the elements of a detector output, they are only
  moved.
\<close>

record 'a tensor =
  shape :: "nat list"
  data :: "'a list"

definition numel :: "'a tensor \<Rightarrow> nat" where
  "numel t = prod_list (shape t)"

definition wf_tensor :: "'a tensor \<Rightarrow> bool" where
  "wf_tensor t = (length (data t) = numel t)"

definition bind_err :: "error + 'a \<Rightarrow> ('a \<Rightarrow> error + 'b) \<Rightarrow> error + 'b" where
  "bind_err m f = (case m of Inl e \<Rightarrow> Inl e | Inr x \<Rightarrow> f x)"

fun map_err :: "('a \<Rightarrow> error + 'b) \<Rightarrow> 'a list \<Rightarrow> error + 'b list" where
  "map_err f [] = Inr []"
| "map_err f (x # xs) =
     bind_err (f x) (\<lambda>y. bind_err (map_err f xs) (\<lambda>ys. Inr (y # ys)))"

text \<open>\<^verbatim>\<open>o.size(0)\<close>: the first dimension; an error on a tensor without dimensions.\<close>

definition size0 :: "'a tensor \<Rightarrow> error + nat" where
  "size0 t = (case shape t of [] \<Rightarrow> Inl RuntimeError_shape | n # _ \<Rightarrow> Inr n)"

text \<open>
  \<^verbatim>\<open>t.permute(0, 2, 3, 1).contiguous()\<close> on a tensor of shape \<open>(n, c, h, w)\<close>: the
  result has shape \<open>(n, h, w, c)\<close> and its element at \<open>(i, y, x, k)\<close> is the element
  of \<open>t\<close> at \<open>(i, k, y, x)\<close>.
\<close>

definition permute_0231 :: "'a tensor \<Rightarrow> error + 'a tensor" where
  "permute_0231 t =
     (case shape t of
        [n, c, h, w] \<Rightarrow>
          Inr \<lparr>shape = [n, h, w, c],
               data = concat (map (\<lambda>i. concat (map (\<lambda>y. concat (map (\<lambda>x.
                        map (\<lambda>k. data t ! (((i * c + k) * h + y) * w + x)) [0..<c])
                      [0..<w])) [0..<h])) [0..<n])\<rparr>
      | _ \<Rightarrow> Inl RuntimeError_shape)"

text \<open>
  \<^verbatim>\<open>t.view(*sizes)\<close> on a contiguous tensor, with the library's inference of one
  dimension given as \<open>-1\<close>: the known dimensions are multiplied; with a \<open>-1\<close> the
  product must be non-zero and divide the number of elements, without one it must
  equal it. The elements stay as they are.
\<close>

definition infer_size :: "int list \<Rightarrow> nat \<Rightarrow> error + nat list" where
  "infer_size sizes n =
     (if list_ex (\<lambda>d. d < - 1) sizes \<or> 1 < length (filter (\<lambda>d. d = - 1) sizes)
      then Inl RuntimeError_shape
      else
        (let newsize = prod_list (map nat (filter (\<lambda>d. d \<noteq> - 1) sizes))
         in if list_ex (\<lambda>d. d = - 1) sizes
            then (if newsize = 0 \<or> n mod newsize \<noteq> 0 then Inl RuntimeError_shape
                  else Inr (map (\<lambda>d. if d = - 1 then n div newsize else nat d) sizes))
            else (if newsize = n then Inr (map nat sizes) else Inl RuntimeError_shape)))"

definition view :: "int list \<Rightarrow> 'a tensor \<Rightarrow> error + 'a tensor" where
  "view sizes t = bind_err (infer_size sizes (numel t)) (\<lambda>s. Inr (t\<lparr>shape := s\<rparr>))"

text \<open>
  \<^verbatim>\<open>torch.cat(ts, 1)\<close> for two-dimensional tensors: the list must not be empty and the
  first dimensions must agree; row \<open>i\<close> of the result is row \<open>i\<close> of every tensor in
  turn.
\<close>

definition row :: "'a tensor \<Rightarrow> nat \<Rightarrow> 'a list" where
  "row t i = take (shape t ! 1) (drop (i * (shape t ! 1)) (data t))"

definition cat1 :: "'a tensor list \<Rightarrow> error + 'a tensor" where
  "cat1 ts =
     (case ts of
        [] \<Rightarrow> Inl RuntimeError_shape
      | t # _ \<Rightarrow>
          (if list_all (\<lambda>u. length (shape u) = 2 \<and> shape u ! 0 = shape t ! 0) ts
           then Inr \<lparr>shape = [shape t ! 0, sum_list (map (\<lambda>u. shape u ! 1) ts)],
                     data = concat (map (\<lambda>i. concat (map (\<lambda>u. row u i) ts))
                                    [0..<shape t ! 0])\<rparr>
           else Inl RuntimeError_shape))"

section \<open>models/detector.py: forward\<close>

text \<open>
  \<^verbatim>\<open>Detector.forward\<close> after \<^verbatim>\<open>fea = self.neck(self.backbone(x))\<close>. The feature maps
  \<open>fea\<close> come from networks outside these sources, and applying a convolution layer
  to a feature map is the tensor library's work: \<open>run\<close> stands for it. The loop runs
  over \<^verbatim>\<open>zip(fea, self.loc, self.conf)\<close> and appends to the two lists.
\<close>

fun head_loop ::
  "(conv2d \<Rightarrow> 'a tensor \<Rightarrow> error + 'a tensor) \<Rightarrow> ('a tensor \<times> conv2d \<times> conv2d) list \<Rightarrow>
   'a tensor list \<times> 'a tensor list \<Rightarrow> error + ('a tensor list \<times> 'a tensor list)"
where
  "head_loop run [] acc = Inr acc"
| "head_loop run ((x, l, c) # rest) (loc_outs, conf_outs) =
     bind_err (run l x) (\<lambda>lx.
     bind_err (permute_0231 lx) (\<lambda>lp.
     bind_err (run c x) (\<lambda>cx.
     bind_err (permute_0231 cx) (\<lambda>cp.
       head_loop run rest (loc_outs @ [lp], conf_outs @ [cp])))))"

text \<open>\<^verbatim>\<open>o.view(o.size(0), -1)\<close>\<close>

definition flat_view :: "'a tensor \<Rightarrow> error + 'a tensor" where
  "flat_view t = bind_err (size0 t) (\<lambda>n. view [int n, - 1] t)"

text \<open>\<^verbatim>\<open>torch.cat([o.view(o.size(0), -1) for o in outs], 1)\<close>\<close>

definition flatten_cat :: "'a tensor list \<Rightarrow> error + 'a tensor" where
  "flatten_cat outs = bind_err (map_err flat_view outs) cat1"

text \<open>\<^verbatim>\<open>t.view(t.size(0), -1, k)\<close>\<close>

definition group_view :: "int \<Rightarrow> 'a tensor \<Rightarrow> error + 'a tensor" where
  "group_view k t = bind_err (size0 t) (\<lambda>n. view [int n, - 1, k] t)"

definition Detector_forward ::
  "(conv2d \<Rightarrow> 'a tensor \<Rightarrow> error + 'a tensor) \<Rightarrow> detector \<Rightarrow> 'a tensor list \<Rightarrow>
   error + ('a tensor \<times> 'a tensor)"
where
  "Detector_forward run d fea =
     bind_err (head_loop run (zip fea (zip (loc d) (conf d))) ([], [])) (\<lambda>(loc_outs, conf_outs).
     bind_err (flatten_cat loc_outs) (\<lambda>loc_cat.
     bind_err (flatten_cat conf_outs) (\<lambda>conf_cat.
     bind_err (group_view 4 loc_cat) (\<lambda>loc_out.
     bind_err (group_view (num_classes d) conf_cat) (\<lambda>conf_out.
       Inr (loc_out, conf_out))))))"

text \<open>Reading an element of a three- or four-dimensional tensor by its indices.\<close>

definition at3 :: "'a tensor \<Rightarrow> nat \<Rightarrow> nat \<Rightarrow> nat \<Rightarrow> 'a" where
  "at3 t i j k = data t ! ((i * (shape t ! 1) + j) * (shape t ! 2) + k)"

definition at4 :: "'a tensor \<Rightarrow> nat \<Rightarrow> nat \<Rightarrow> nat \<Rightarrow> nat \<Rightarrow> 'a" where
  "at4 t i j k l = data t ! (((i * (shape t ! 1) + j) * (shape t ! 2) + k) * (shape t ! 3) + l)"

text \<open>
  The anchor order of the specification, for feature maps of shape \<open>(N, C, H, W)\<close>
  listed by pyramid level: \<open>cells\<close> counts the spatial positions of a list of
  levels, and \<open>anchor_index fea k y x a\<close> is the place of the anchor of level \<open>k\<close>,
  row \<open>y\<close>, column \<open>x\<close> and shape \<open>a\<close> when anchors are listed by level, then by
  cell in row-major order (row outer), then by shape, six shapes to a cell.
\<close>

definition cells :: "'a tensor list \<Rightarrow> nat" where
  "cells ts = sum_list (map (\<lambda>t. shape t ! 2 * shape t ! 3) ts)"

definition anchor_index :: "'a tensor list \<Rightarrow> nat \<Rightarrow> nat \<Rightarrow> nat \<Rightarrow> nat \<Rightarrow> nat" where
  "anchor_index fea k y x a =
     6 * cells (take k fea) + ((y * (shape (fea ! k) ! 3) + x) * 6 + a)"

text \<open>
  What is used of the library's convolution: a layer with kernel 3 and padding 1,
  applied to a feature map with as many channels as the layer expects and a
  non-empty spatial extent, succeeds and keeps batch size, height and width, the
  channel count becoming the layer's output channels.
\<close>

definition conv_like :: "(conv2d \<Rightarrow> 'a tensor \<Rightarrow> error + 'a tensor) \<Rightarrow> bool" where
  "conv_like run =
     (\<forall>l x n h w. shape x = [n, nat (conv_in l), h, w] \<and> 0 < h \<and> 0 < w
                   \<and> conv_kernel l = 3 \<and> conv_padding l = 1 \<longrightarrow>
        (\<exists>y. run l x = Inr y \<and> shape y = [n, nat (conv_out l), h, w]))"

text \<open>
  A stand-in for the application of a layer that has this property, used for
  concrete runs: each element of its output is that element's own position in the
  output, so that one can see where \<^verbatim>\<open>forward\<close> moves it. \<open>feature_map\<close> is a
  feature map of a given size for it.
\<close>

definition index_conv :: "conv2d \<Rightarrow> nat tensor \<Rightarrow> error + nat tensor" where
  "index_conv l x =
     (case shape x of
        [n, c, h, w] \<Rightarrow>
          (if c = nat (conv_in l) \<and> 0 < h \<and> 0 < w
           then Inr \<lparr>shape = [n, nat (conv_out l), h, w],
                     data = [0..<n * nat (conv_out l) * h * w]\<rparr>
           else Inl RuntimeError_shape)
      | _ \<Rightarrow> Inl RuntimeError_shape)"

definition feature_map :: "nat \<Rightarrow> nat \<Rightarrow> nat \<Rightarrow> nat \<Rightarrow> nat tensor" where
  "feature_map n c h w = \<lparr>shape = [n, c, h, w], data = replicate (n * c * h * w) 0\<rparr>"

section \<open>Arrays with arithmetic\<close>

text \<open>
  The arrays of \<^verbatim>\<open>repvgg_backbone.py\<close> are computed with, so an array is its shape and
  its elements as a function of the index (a list of positions, one per dimension);
  only the elements at indices within the shape mean anything. A Python number is
  the array of shape \<open>[]\<close>. Elements are real numbers: the arithmetic below is exact,
  where NumPy and PyTorch round to floating point.
\<close>

record ndarray =
  shp :: "nat list"
  el :: "nat list \<Rightarrow> real"

definition scalar :: "real \<Rightarrow> ndarray" where
  "scalar v = \<lparr>shp = [], el = (\<lambda>_. v)\<rparr>"

definition np_zeros :: "nat list \<Rightarrow> ndarray" where
  "np_zeros s = \<lparr>shp = s, el = (\<lambda>_. 0)\<rparr>"

text \<open>
  Broadcasting of two shapes: they are aligned at their last dimension; two
  dimensions go together when they are equal or one of them is 1; otherwise the
  operation raises \<^verbatim>\<open>ValueError\<close>. \<open>bc_shape_rev\<close> works on the reversed shapes.
\<close>

fun bc_shape_rev :: "nat list \<Rightarrow> nat list \<Rightarrow> error + nat list" where
  "bc_shape_rev [] ys = Inr ys"
| "bc_shape_rev (x # xs) [] = Inr (x # xs)"
| "bc_shape_rev (x # xs) (y # ys) =
     (if x = y \<or> x = 1 \<or> y = 1
      then bind_err (bc_shape_rev xs ys) (\<lambda>r. Inr ((if x = 1 then y else x) # r))
      else Inl ValueError_broadcast)"

definition broadcast_shapes :: "nat list \<Rightarrow> nat list \<Rightarrow> error + nat list" where
  "broadcast_shapes a b = bind_err (bc_shape_rev (rev a) (rev b)) (\<lambda>r. Inr (rev r))"

text \<open>
  The index at which an operand of shape \<open>s\<close> is read for index \<open>idx\<close> of the result:
  its own trailing dimensions, position 0 in a dimension of size 1.
\<close>

definition bc_index :: "nat list \<Rightarrow> nat list \<Rightarrow> nat list" where
  "bc_index s idx = map2 (\<lambda>d i. if d = 1 then 0 else i) s (drop (length idx - length s) idx)"

definition np_binop :: "(real \<Rightarrow> real \<Rightarrow> real) \<Rightarrow> ndarray \<Rightarrow> ndarray \<Rightarrow> error + ndarray" where
  "np_binop f a b =
     bind_err (broadcast_shapes (shp a) (shp b)) (\<lambda>s.
       Inr \<lparr>shp = s, el = (\<lambda>idx. f (el a (bc_index (shp a) idx)) (el b (bc_index (shp b) idx)))\<rparr>)"

definition np_add :: "ndarray \<Rightarrow> ndarray \<Rightarrow> error + ndarray" where
  "np_add = np_binop (+)"

definition np_sub :: "ndarray \<Rightarrow> ndarray \<Rightarrow> error + ndarray" where
  "np_sub = np_binop (-)"

definition np_mul :: "ndarray \<Rightarrow> ndarray \<Rightarrow> error + ndarray" where
  "np_mul = np_binop (*)"

definition np_div :: "ndarray \<Rightarrow> ndarray \<Rightarrow> error + ndarray" where
  "np_div = np_binop (/)"

definition np_sqrt :: "ndarray \<Rightarrow> ndarray" where
  "np_sqrt a = \<lparr>shp = shp a, el = (\<lambda>idx. sqrt (el a idx))\<rparr>"

text \<open>
  \<^verbatim>\<open>np.reshape(t, (-1, 1, 1, 1))\<close>: the elements in row-major order along the first
  dimension. \<open>unravel s k\<close> is the index of the \<open>k\<close>-th element of shape \<open>s\<close>.
\<close>

fun unravel :: "nat list \<Rightarrow> nat \<Rightarrow> nat list" where
  "unravel [] k = []"
| "unravel (d # ds) k = (k div prod_list ds) # unravel ds (k mod prod_list ds)"

definition reshape_column :: "ndarray \<Rightarrow> ndarray" where
  "reshape_column t =
     \<lparr>shp = [prod_list (shp t), 1, 1, 1], el = (\<lambda>idx. el t (unravel (shp t) (idx ! 0)))\<rparr>"

text \<open>
  \<^verbatim>\<open>np.tile(t, reps)\<close> with as many repetitions as \<open>t\<close> has dimensions: dimension \<open>k\<close>
  is repeated \<open>reps ! k\<close> times.
\<close>

definition np_tile :: "ndarray \<Rightarrow> nat list \<Rightarrow> error + ndarray" where
  "np_tile t reps =
     (if length reps = length (shp t)
      then Inr \<lparr>shp = map2 (*) (shp t) reps,
                el = (\<lambda>idx. el t (map2 (\<lambda>i d. i mod d) idx (shp t)))\<rparr>
      else Inl RuntimeError_shape)"

section \<open>models/repvgg_backbone.py: the block\<close>

text \<open>
  The modules of a block with their parameters. \<^verbatim>\<open>nn.Conv2d\<close>: weight of shape
  \<open>(out, in / groups, k, k)\<close>, an optional bias, stride, padding, groups.
  \<^verbatim>\<open>nn.BatchNorm2d\<close>: weight \<open>gamma\<close>, bias \<open>beta\<close>, the running statistics and \<open>eps\<close>.
  \<^verbatim>\<open>conv_bn\<close> is the \<^verbatim>\<open>nn.Sequential\<close> of a convolution without bias and a batch
  normalisation.
\<close>

record conv_module =
  cv_weight :: ndarray
  cv_bias :: "ndarray option"
  cv_stride :: nat
  cv_padding :: nat
  cv_groups :: nat

record batchnorm =
  bn_weight :: ndarray
  bn_bias :: ndarray
  running_mean :: ndarray
  running_var :: ndarray
  bn_eps :: real

record conv_bn_seq =
  conv :: conv_module
  bn :: batchnorm

text \<open>
  The library's constructors. \<^verbatim>\<open>nn.Conv2d\<close> rejects channel counts that the groups do
  not divide; its weight is initialised at random, which is the argument \<open>init\<close>
  here. \<^verbatim>\<open>nn.BatchNorm2d\<close> starts with weight 1, bias 0, mean 0, variance 1 and
  \<open>eps = 1e-5\<close>.
\<close>

definition new_Conv2d ::
  "nat \<Rightarrow> nat \<Rightarrow> nat \<Rightarrow> nat \<Rightarrow> nat \<Rightarrow> nat \<Rightarrow> bool \<Rightarrow> (nat list \<Rightarrow> real) \<Rightarrow> error + conv_module"
where
  "new_Conv2d cin cout k strd pad grps with_bias init =
     (if grps = 0 \<or> cin mod grps \<noteq> 0 \<or> cout mod grps \<noteq> 0 then Inl ValueError_groups
      else Inr \<lparr>cv_weight = \<lparr>shp = [cout, cin div grps, k, k], el = init\<rparr>,
                cv_bias = (if with_bias then Some (np_zeros [cout]) else None),
                cv_stride = strd, cv_padding = pad, cv_groups = grps\<rparr>)"

definition new_BatchNorm2d :: "nat \<Rightarrow> batchnorm" where
  "new_BatchNorm2d c =
     \<lparr>bn_weight = \<lparr>shp = [c], el = (\<lambda>_. 1)\<rparr>, bn_bias = np_zeros [c],
      running_mean = np_zeros [c], running_var = \<lparr>shp = [c], el = (\<lambda>_. 1)\<rparr>,
      bn_eps = 1 / 100000\<rparr>"

definition conv_bn ::
  "nat \<Rightarrow> nat \<Rightarrow> nat \<Rightarrow> nat \<Rightarrow> nat \<Rightarrow> nat \<Rightarrow> (nat list \<Rightarrow> real) \<Rightarrow> error + conv_bn_seq"
where
  "conv_bn cin cout k strd pad grps init =
     bind_err (new_Conv2d cin cout k strd pad grps False init) (\<lambda>c.
       Inr \<lparr>conv = c, bn = new_BatchNorm2d cout\<rparr>)"

text \<open>
  A block is in deploy form (one convolution with bias, \<^verbatim>\<open>rbr_reparam\<close>) or in
  training form (three branches, of which the identity branch may be \<^verbatim>\<open>None\<close>).
\<close>

record train_block =
  groups :: nat
  in_channels :: nat
  rbr_identity :: "batchnorm option"
  rbr_dense :: conv_bn_seq
  rbr_1x1 :: conv_bn_seq

datatype block = Deploy conv_module | Train train_block

text \<open>
  \<^verbatim>\<open>RepVGGBlock.__init__\<close>, for \<^verbatim>\<open>dilation=1\<close> and \<^verbatim>\<open>padding_mode='zeros'\<close>. The three
  \<open>init\<close> arguments are the random initial weights of the convolutions.
\<close>

definition RepVGGBlock_init ::
  "nat \<Rightarrow> nat \<Rightarrow> nat \<Rightarrow> nat \<Rightarrow> nat \<Rightarrow> nat \<Rightarrow> bool \<Rightarrow>
   (nat list \<Rightarrow> real) \<Rightarrow> (nat list \<Rightarrow> real) \<Rightarrow> error + block"
where
  "RepVGGBlock_init cin cout kernel_size strd pad grps dep init3 init1 =
     (if kernel_size \<noteq> 3 then Inl AssertionError
      else if pad \<noteq> 1 then Inl AssertionError
      else
        (let padding_11 = pad - kernel_size div 2
         in if dep
            then bind_err (new_Conv2d cin cout kernel_size strd pad grps True init3)
                   (\<lambda>c. Inr (Deploy c))
            else
              (let ident = (if cout = cin \<and> strd = 1 then Some (new_BatchNorm2d cin) else None)
               in bind_err (conv_bn cin cout kernel_size strd pad grps init3) (\<lambda>dense.
                  bind_err (conv_bn cin cout 1 strd padding_11 grps init1) (\<lambda>one.
                    Inr (Train \<lparr>groups = grps, in_channels = cin, rbr_identity = ident,
                                rbr_dense = dense, rbr_1x1 = one\<rparr>))))))"

text \<open>
  The library's operations on a batch \<open>x\<close> of shape \<open>(n, c, h, w)\<close>. A convolution
  with weight of shape \<open>(co, ci, kh, kw)\<close>, stride \<open>s\<close>, zero padding \<open>p\<close> and \<open>g\<close>
  groups needs \<open>c = ci * g\<close> and a padded input no smaller than the kernel; output
  channel \<open>o\<close> reads the input channels of its group, \<open>(o div (co div g)) * ci + i\<close>
  for \<open>i < ci\<close>. \<open>padded\<close> reads the zero-padded input, and \<open>conv_el c x i a yy xx\<close>
  is the output at batch index \<open>i\<close>, channel \<open>a\<close>, row \<open>yy\<close> and column \<open>xx\<close>.
\<close>

definition padded :: "ndarray \<Rightarrow> nat \<Rightarrow> nat \<Rightarrow> nat \<Rightarrow> nat \<Rightarrow> nat \<Rightarrow> real" where
  "padded x p i c yy xx =
     (if p \<le> yy \<and> yy - p < shp x ! 2 \<and> p \<le> xx \<and> xx - p < shp x ! 3
      then el x [i, c, yy - p, xx - p] else 0)"

definition conv_el :: "conv_module \<Rightarrow> ndarray \<Rightarrow> nat \<Rightarrow> nat \<Rightarrow> nat \<Rightarrow> nat \<Rightarrow> real" where
  "conv_el c x i a yy xx =
     (case cv_bias c of None \<Rightarrow> 0 | Some b \<Rightarrow> el b [a])
     + (\<Sum>j<shp (cv_weight c) ! 1. \<Sum>ky<shp (cv_weight c) ! 2. \<Sum>kx<shp (cv_weight c) ! 3.
          el (cv_weight c) [a, j, ky, kx]
          * padded x (cv_padding c) i
              ((a div (shp (cv_weight c) ! 0 div cv_groups c)) * (shp (cv_weight c) ! 1) + j)
              (yy * cv_stride c + ky) (xx * cv_stride c + kx))"

definition conv2d_apply :: "conv_module \<Rightarrow> ndarray \<Rightarrow> error + ndarray" where
  "conv2d_apply c x =
     (case shp (cv_weight c) of
        [co, ci, kh, kw] \<Rightarrow>
          (case shp x of
             [n, cx, h, w] \<Rightarrow>
               (let s = cv_stride c; p = cv_padding c; g = cv_groups c
                in if g = 0 \<or> s = 0 \<or> cx \<noteq> ci * g \<or> co mod g \<noteq> 0
                      \<or> h + 2 * p < kh \<or> w + 2 * p < kw
                   then Inl RuntimeError_shape
                   else Inr \<lparr>shp = [n, co, (h + 2 * p - kh) div s + 1, (w + 2 * p - kw) div s + 1],
                             el = (\<lambda>idx. conv_el c x (idx ! 0) (idx ! 1) (idx ! 2) (idx ! 3))\<rparr>)
           | _ \<Rightarrow> Inl RuntimeError_shape)
      | _ \<Rightarrow> Inl RuntimeError_shape)"

text \<open>Batch normalisation in eval mode, with the running statistics.\<close>

definition bn_apply :: "batchnorm \<Rightarrow> ndarray \<Rightarrow> error + ndarray" where
  "bn_apply b x =
     (case shp x of
        [n, c, h, w] \<Rightarrow>
          (if shp (bn_weight b) = [c] \<and> shp (bn_bias b) = [c]
              \<and> shp (running_mean b) = [c] \<and> shp (running_var b) = [c]
           then Inr \<lparr>shp = shp x,
                     el = (\<lambda>idx. (el x idx - el (running_mean b) [idx ! 1])
                                    / sqrt (el (running_var b) [idx ! 1] + bn_eps b)
                                    * el (bn_weight b) [idx ! 1]
                                  + el (bn_bias b) [idx ! 1])\<rparr>
           else Inl RuntimeError_shape)
      | _ \<Rightarrow> Inl RuntimeError_shape)"

definition conv_bn_apply :: "conv_bn_seq \<Rightarrow> ndarray \<Rightarrow> error + ndarray" where
  "conv_bn_apply sq x = bind_err (conv2d_apply (conv sq) x) (bn_apply (bn sq))"

definition relu :: "ndarray \<Rightarrow> ndarray" where
  "relu a = \<lparr>shp = shp a, el = (\<lambda>idx. max 0 (el a idx))\<rparr>"

text \<open>
  \<^verbatim>\<open>RepVGGBlock.forward\<close>. \<open>pre_activation\<close> is the argument of \<^verbatim>\<open>self.nonlinearity\<close>;
  \<^verbatim>\<open>id_out\<close> is the number 0 when there is no identity branch.
\<close>

definition pre_activation :: "block \<Rightarrow> ndarray \<Rightarrow> error + ndarray" where
  "pre_activation blk inputs =
     (case blk of
        Deploy rbr_reparam \<Rightarrow> conv2d_apply rbr_reparam inputs
      | Train self \<Rightarrow>
          bind_err (case rbr_identity self of
                      None \<Rightarrow> Inr (scalar 0)
                    | Some idn \<Rightarrow> bn_apply idn inputs) (\<lambda>id_out.
          bind_err (conv_bn_apply (rbr_dense self) inputs) (\<lambda>dense_out.
          bind_err (conv_bn_apply (rbr_1x1 self) inputs) (\<lambda>one_out.
          bind_err (np_add dense_out one_out) (\<lambda>sum2.
            np_add sum2 id_out)))))"

definition RepVGGBlock_forward :: "block \<Rightarrow> ndarray \<Rightarrow> error + ndarray" where
  "RepVGGBlock_forward blk inputs = bind_err (pre_activation blk inputs) (\<lambda>t. Inr (relu t))"

section \<open>models/repvgg_backbone.py: weight fusion\<close>

text \<open>
  The argument of \<^verbatim>\<open>_fuse_bn\<close> is \<^verbatim>\<open>None\<close>, an \<^verbatim>\<open>nn.Sequential\<close> or an
  \<^verbatim>\<open>nn.BatchNorm2d\<close>.
\<close>

datatype branch = Sequential conv_bn_seq | BatchNorm2d batchnorm

text \<open>
  The kernel built for the identity branch: \<^verbatim>\<open>np.zeros((in_channels, in_channels, 3, 3))\<close>, then the loop \<^verbatim>\<open>kernel[i, i, 1, 1] = 1\<close>.
\<close>

definition identity_kernel :: "nat \<Rightarrow> ndarray" where
  "identity_kernel n =
     fold (\<lambda>i k. k\<lparr>el := (el k)([i, i, 1, 1] := 1)\<rparr>) [0..<n] (np_zeros [n, n, 3, 3])"

definition fuse_bn :: "train_block \<Rightarrow> branch option \<Rightarrow> error + (ndarray \<times> ndarray)" where
  "fuse_bn self br =
     (case br of
        None \<Rightarrow> Inr (scalar 0, scalar 0)
      | Some b \<Rightarrow>
          (let (kernel, mean, var, gamma, beta, eps) =
                 (case b of
                    Sequential sq \<Rightarrow>
                      (cv_weight (conv sq), running_mean (bn sq), running_var (bn sq),
                       bn_weight (bn sq), bn_bias (bn sq), bn_eps (bn sq))
                  | BatchNorm2d n \<Rightarrow>
                      (identity_kernel (in_channels self), running_mean n, running_var n,
                       bn_weight n, bn_bias n, bn_eps n))
           in bind_err (np_add var (scalar eps)) (\<lambda>v.
              let std = np_sqrt v
              in bind_err (np_div gamma std) (\<lambda>t0.
                 let t1 = reshape_column t0
                 in (case shp kernel of
                       [k0, k1, k2, k3] \<Rightarrow>
                         bind_err (np_tile t1 [1, k1, k2, k3]) (\<lambda>t.
                         bind_err (np_mul kernel t) (\<lambda>fused_kernel.
                         bind_err (np_mul mean gamma) (\<lambda>mg.
                         bind_err (np_div mg std) (\<lambda>mgs.
                         bind_err (np_sub beta mgs) (\<lambda>fused_bias.
                           Inr (fused_kernel, fused_bias))))))
                     | _ \<Rightarrow> Inl IndexError)))))"

text \<open>
  \<^verbatim>\<open>_pad_1x1_to_3x3\<close>: the \<open>1x1\<close> kernel is written to the centre of a zero \<open>3x3\<close>
  kernel. The kernels that reach it have four dimensions.
\<close>

definition pad_1x1_to_3x3 :: "ndarray option \<Rightarrow> error + ndarray" where
  "pad_1x1_to_3x3 kernel1x1 =
     (case kernel1x1 of
        None \<Rightarrow> Inr (scalar 0)
      | Some k \<Rightarrow>
          (case shp k of
             [co, ci, a, b] \<Rightarrow>
               (if a = 1 \<and> b = 1
                then Inr \<lparr>shp = [co, ci, 3, 3],
                          el = (\<lambda>idx. if idx ! 2 = 1 \<and> idx ! 3 = 1
                                       then el k [idx ! 0, idx ! 1, 0, 0] else 0)\<rparr>
                else Inl ValueError_broadcast)
           | _ \<Rightarrow> Inl IndexError))"

definition repvgg_convert :: "train_block \<Rightarrow> error + (ndarray \<times> ndarray)" where
  "repvgg_convert self =
     bind_err (fuse_bn self (Some (Sequential (rbr_dense self)))) (\<lambda>(kernel3x3, bias3x3).
     bind_err (fuse_bn self (Some (Sequential (rbr_1x1 self)))) (\<lambda>(kernel1x1, bias1x1).
     bind_err (fuse_bn self (map_option BatchNorm2d (rbr_identity self))) (\<lambda>(kernelid, biasid).
     bind_err (pad_1x1_to_3x3 (Some kernel1x1)) (\<lambda>padded1x1.
     bind_err (np_add kernel3x3 padded1x1) (\<lambda>k2.
     bind_err (np_add k2 kernelid) (\<lambda>kernel.
     bind_err (np_add bias3x3 bias1x1) (\<lambda>b2.
     bind_err (np_add b2 biasid) (\<lambda>bias.
       Inr (kernel, bias)))))))))"

text \<open>
  The deploy-form convolution that receives the converted weights
  (\<^verbatim>\<open>repvgg_model_convert\<close> builds the deploy model and assigns \<^verbatim>\<open>rbr_reparam.weight\<close>
  and \<^verbatim>\<open>rbr_reparam.bias\<close>): kernel 3, padding 1, the stride and groups of the block.
\<close>

definition rbr_reparam_of :: "train_block \<Rightarrow> ndarray \<times> ndarray \<Rightarrow> conv_module" where
  "rbr_reparam_of self kb =
     \<lparr>cv_weight = fst kb, cv_bias = Some (snd kb),
      cv_stride = cv_stride (conv (rbr_dense self)), cv_padding = 1, cv_groups = groups self\<rparr>"

text \<open>
  What the constructor fixes of a block in training form with \<open>cin\<close> input
  channels, \<open>cout\<close> output channels, stride \<open>strd\<close> and \<open>grps\<close> groups, whatever values
  training or loading has given to the parameters since: the shapes, the
  hyper-parameters, and which branches exist. Variances are not negative and
  \<open>eps\<close> is positive.
\<close>

definition bn_shaped :: "nat \<Rightarrow> batchnorm \<Rightarrow> bool" where
  "bn_shaped c b =
     (shp (bn_weight b) = [c] \<and> shp (bn_bias b) = [c] \<and> shp (running_mean b) = [c]
      \<and> shp (running_var b) = [c] \<and> 0 < bn_eps b \<and> list_all (\<lambda>i. 0 \<le> el (running_var b) [i]) [0..<c])"

definition block_shaped :: "nat \<Rightarrow> nat \<Rightarrow> nat \<Rightarrow> nat \<Rightarrow> train_block \<Rightarrow> bool" where
  "block_shaped cin cout strd grps self =
     (0 < grps \<and> cin mod grps = 0 \<and> cout mod grps = 0
      \<and> groups self = grps \<and> in_channels self = cin
      \<and> shp (cv_weight (conv (rbr_dense self))) = [cout, cin div grps, 3, 3]
      \<and> cv_bias (conv (rbr_dense self)) = None
      \<and> cv_stride (conv (rbr_dense self)) = strd \<and> cv_padding (conv (rbr_dense self)) = 1
      \<and> cv_groups (conv (rbr_dense self)) = grps
      \<and> bn_shaped cout (bn (rbr_dense self))
      \<and> shp (cv_weight (conv (rbr_1x1 self))) = [cout, cin div grps, 1, 1]
      \<and> cv_bias (conv (rbr_1x1 self)) = None
      \<and> cv_stride (conv (rbr_1x1 self)) = strd \<and> cv_padding (conv (rbr_1x1 self)) = 0
      \<and> cv_groups (conv (rbr_1x1 self)) = grps
      \<and> bn_shaped cout (bn (rbr_1x1 self))
      \<and> (case rbr_identity self of
            None \<Rightarrow> \<not> (cout = cin \<and> strd = 1)
          | Some idn \<Rightarrow> cout = cin \<and> strd = 1 \<and> bn_shaped cin idn))"

text \<open>
  Batch normalisation in eval mode is an affine map per channel; these are its
  scale and its shift for channel \<open>a\<close>.
\<close>

definition bn_scale :: "batchnorm \<Rightarrow> nat \<Rightarrow> real" where
  "bn_scale b a = el (bn_weight b) [a] / sqrt (el (running_var b) [a] + bn_eps b)"

definition bn_shift :: "batchnorm \<Rightarrow> nat \<Rightarrow> real" where
  "bn_shift b a =
     el (bn_bias b) [a]
     - el (running_mean b) [a] * el (bn_weight b) [a] / sqrt (el (running_var b) [a] + bn_eps b)"

text \<open>
  The fused weights in the words of the specification: the dense kernel scaled by
  its batch normalisation, plus the \<open>1x1\<close> kernel scaled by its own and placed at the
  centre of a \<open>3x3\<close> kernel, plus the identity kernel scaled by the batch
  normalisation of the identity branch; the three shifts summed. Without an
  identity branch its part is 0. \<open>id_out_el\<close> is what the identity branch adds to an
  output element of the block.
\<close>

definition fused_kernel_el :: "train_block \<Rightarrow> nat \<Rightarrow> nat \<Rightarrow> nat \<Rightarrow> nat \<Rightarrow> real" where
  "fused_kernel_el self a b c d =
     el (cv_weight (conv (rbr_dense self))) [a, b, c, d] * bn_scale (bn (rbr_dense self)) a
     + (if c = 1 \<and> d = 1
        then el (cv_weight (conv (rbr_1x1 self))) [a, b, 0, 0] * bn_scale (bn (rbr_1x1 self)) a
        else 0)
     + (case rbr_identity self of
          None \<Rightarrow> 0
        | Some idn \<Rightarrow> (if a = b \<and> c = 1 \<and> d = 1 then 1 else 0) * bn_scale idn a)"

definition fused_bias_el :: "train_block \<Rightarrow> nat \<Rightarrow> real" where
  "fused_bias_el self a =
     bn_shift (bn (rbr_dense self)) a + bn_shift (bn (rbr_1x1 self)) a
     + (case rbr_identity self of None \<Rightarrow> 0 | Some idn \<Rightarrow> bn_shift idn a)"

definition id_out_el :: "train_block \<Rightarrow> ndarray \<Rightarrow> nat \<Rightarrow> nat \<Rightarrow> nat \<Rightarrow> nat \<Rightarrow> real" where
  "id_out_el self x i a yy xx =
     (case rbr_identity self of
        None \<Rightarrow> 0
      | Some idn \<Rightarrow> el x [i, a, yy, xx] * bn_scale idn a + bn_shift idn a)"

section \<open>Construction: the head layers\<close>

lemma multibox_loop_ok:
  assumes "0 \<le> fea" "0 \<le> lc" "0 \<le> cc"
  shows "multibox_loop k fea lc cc (ls, cs) =
           Inr (ls @ replicate k \<lparr>conv_in = fea, conv_out = lc, conv_kernel = 3, conv_padding = 1\<rparr>,
                cs @ replicate k \<lparr>conv_in = fea, conv_out = cc, conv_kernel = 3, conv_padding = 1\<rparr>)"
  using assms
proof (induction k arbitrary: ls cs)
  case 0
  then show ?case by simp
next
  case (Suc k)
  then show ?case
    by (simp add: nn_Conv2d_def replicate_app_Cons_same)
qed

lemma multibox_loop_negative:
  assumes "0 \<le> fea" "0 \<le> lc" "cc < 0"
  shows "multibox_loop (Suc k) fea lc cc acc = Inl (RuntimeError_negative_dimension cc)"
  using assms by (cases acc) (simp add: nn_Conv2d_def)

lemma select_backbone_fea:
  "select_backbone b = Inr (bk, ch, fea) \<Longrightarrow> fea = 256 \<or> fea = 128"
  by (auto simp: select_backbone_def split: if_splits)

lemma Detector_init_Inr:
  assumes "Detector_init new_backbone new_neck sz nc b n = Inr d"
  shows "sz mod 64 = 0 \<and> fpn_level d = (if sz < 512 then 4 else 5)
         \<and> num_classes d = nc - 1 \<and> num_anchors d = 6
         \<and> multibox (fpn_level d) 6 (nc - 1) (fea_channel d) = Inr (loc d, conf d)
         \<and> (fea_channel d = 256 \<or> fea_channel d = 128)"
  using assms
  by (auto simp: Detector_init_def Detector_params_def
      split: sum.splits prod.splits if_splits option.splits dest: select_backbone_fea)

lemma multibox_loop_error:
  "multibox_loop k fea lc cc acc = Inl e \<Longrightarrow> \<exists>d. e = RuntimeError_negative_dimension d"
proof (induction k arbitrary: acc)
  case 0
  then show ?case by simp
next
  case (Suc k)
  obtain ls cs where acc: "acc = (ls, cs)" by (cases acc)
  from Suc.prems show ?case
    unfolding acc
    by (auto simp: nn_Conv2d_def split: if_splits sum.splits dest: Suc.IH)
qed

lemma select_backbone_error:
  "select_backbone b = Inl e \<Longrightarrow> e = ValueError_backbone b"
  by (simp add: select_backbone_def split: if_splits)

lemma select_neck_error:
  "select_neck n = Inl e \<Longrightarrow> e = ValueError_neck n"
  by (simp add: select_neck_def split: if_splits)

lemma Detector_init_size_error:
  "sz mod 64 \<noteq> 0 \<Longrightarrow>
     Detector_init new_backbone new_neck sz ncls b n = Inl (ValueError_size sz)"
  by (simp add: Detector_init_def Detector_params_def)

lemma Detector_init_other_error:
  assumes "sz mod 64 = 0" "Detector_init new_backbone new_neck sz ncls b n = Inl e"
  shows "e = ValueError_backbone b \<or> e = ValueError_neck n
         \<or> (\<exists>msg. e = Error_in_backbone msg) \<or> (\<exists>msg. e = Error_in_neck msg)
         \<or> (\<exists>d. e = RuntimeError_negative_dimension d)"
proof -
  have p: "Detector_params sz ncls = Inr (if sz < 512 then 4 else 5, ncls - 1, 6)"
    using assms(1) by (simp add: Detector_params_def)
  show ?thesis
  proof (cases "select_backbone b")
    case (Inl e1)
    then show ?thesis
      using assms(2) p select_backbone_error [OF Inl] by (simp add: Detector_init_def)
  next
    case bb: (Inr t)
    obtain bk ch fea where t: "t = (bk, ch, fea)" by (cases t)
    show ?thesis
    proof (cases "new_backbone bk")
      case (Some msg)
      then show ?thesis
        using assms(2) p bb t by (auto simp: Detector_init_def)
    next
      case nb: None
      show ?thesis
      proof (cases "select_neck n")
        case (Inl e2)
        then show ?thesis
          using assms(2) p bb t nb select_neck_error [OF Inl] by (simp add: Detector_init_def)
      next
        case sn: (Inr nk)
        show ?thesis
        proof (cases "new_neck nk (if sz < 512 then 4 else 5) ch fea")
          case (Some msg)
          then show ?thesis
            using assms(2) p bb t nb sn by (auto simp: Detector_init_def)
        next
          case nn: None
          show ?thesis
          proof (cases "multibox (if sz < 512 then 4 else 5) 6 (ncls - 1) fea")
            case (Inl e3)
            then have "\<exists>d. e3 = RuntimeError_negative_dimension d"
              unfolding multibox_def Let_def by (rule multibox_loop_error)
            then show ?thesis
              using assms(2) p bb t nb sn nn Inl by (simp add: Detector_init_def)
          next
            case (Inr r)
            then show ?thesis
              using assms(2) p bb t nb sn nn
              by (simp add: Detector_init_def split: prod.splits)
          qed
        qed
      qed
    qed
  qed
qed

lemma multibox_zero_classes:
  fixes sz :: int
  assumes "fea = 256 \<or> fea = 128"
  shows "multibox (if sz < 512 then 4 else 5) 6 (- 1) fea
           = Inl (RuntimeError_negative_dimension (- 6))"
proof -
  have fea: "0 \<le> fea" using assms by auto
  show ?thesis
    using multibox_loop_negative [of fea 24 "- 6" 3 "([], [])"]
      multibox_loop_negative [of fea 24 "- 6" 4 "([], [])"] fea
    by (simp add: multibox_def numeral_nat)
qed

lemma multibox_loop_Inr:
  "multibox_loop k fea lc cc (ls, cs) = Inr r \<Longrightarrow>
     r = (ls @ replicate k \<lparr>conv_in = fea, conv_out = lc, conv_kernel = 3, conv_padding = 1\<rparr>,
          cs @ replicate k \<lparr>conv_in = fea, conv_out = cc, conv_kernel = 3, conv_padding = 1\<rparr>)"
proof (induction k arbitrary: ls cs)
  case 0
  then show ?case by simp
next
  case (Suc k)
  from Suc.prems show ?case
    by (auto simp: nn_Conv2d_def replicate_app_Cons_same split: if_splits dest!: Suc.IH)
qed

lemma multibox_Inr:
  assumes "multibox k na nc fea = Inr (ls, cs)"
  shows "ls = replicate k \<lparr>conv_in = fea, conv_out = na * 4, conv_kernel = 3, conv_padding = 1\<rparr>"
    and "cs = replicate k \<lparr>conv_in = fea, conv_out = na * nc, conv_kernel = 3, conv_padding = 1\<rparr>"
  using multibox_loop_Inr [of k fea "na * 4" "na * nc" "[]" "[]" "(ls, cs)"] assms
  by (simp_all add: multibox_def Let_def)

section \<open>Forward: where the elements go\<close>


lemma length_concat_map_upt:
  "(\<And>i. i < n \<Longrightarrow> length (f i) = m) \<Longrightarrow> length (concat (map f [0..<n])) = n * m"
  by (induction n) simp_all

lemma nth_concat_map_upt:
  assumes "\<And>i. i < n \<Longrightarrow> length (f i) = m" "i < n" "j < m"
  shows "concat (map f [0..<n]) ! (i * m + j) = f i ! j"
  using assms
proof (induction n)
  case 0
  then show ?case by simp
next
  case (Suc n)
  have len: "length (concat (map f [0..<n])) = n * m"
    using Suc.prems(1) by (simp add: length_concat_map_upt)
  show ?case
  proof (cases "i < n")
    case True
    then have "i * m + j < n * m"
      using Suc.prems(3)
      by (metis add.commute add_less_cancel_left less_le_trans mult_Suc mult_le_mono1 Suc_leI)
    with True Suc show ?thesis by (simp add: nth_append len)
  next
    case False
    with Suc.prems have "i = n" by simp
    then show ?thesis by (simp add: nth_append len)
  qed
qed

lemma nth_concat_offset:
  "k < length xss \<Longrightarrow> j < length (xss ! k) \<Longrightarrow>
     concat xss ! (sum_list (map length (take k xss)) + j) = xss ! k ! j"
proof (induction xss arbitrary: k)
  case Nil
  then show ?case by simp
next
  case (Cons xs xss)
  show ?case
  proof (cases k)
    case 0
    with Cons.prems show ?thesis by (simp add: nth_append)
  next
    case (Suc k')
    with Cons show ?thesis by (simp add: nth_append add.assoc)
  qed
qed


lemma idx_bound: "i < n \<Longrightarrow> j < m \<Longrightarrow> i * m + j < n * (m::nat)"
proof -
  assume a: "i < n" "j < m"
  then have "i * m + j < i * m + m" by simp
  also have "\<dots> = Suc i * m" by simp
  also have "\<dots> \<le> n * m" using a(1) by (intro mult_le_mono1) simp
  finally show ?thesis .
qed

lemma permute_0231_spec:
  assumes s: "shape t = [n, c, h, w]"
  shows "\<exists>p. permute_0231 t = Inr p \<and> shape p = [n, h, w, c]
           \<and> length (data p) = n * (h * (w * c))
           \<and> (\<forall>i<n. \<forall>y<h. \<forall>x<w. \<forall>k<c.
                 data p ! (i * (h * (w * c)) + (y * (w * c) + (x * c + k)))
                   = data t ! (((i * c + k) * h + y) * w + x))"
proof -
  define e where "e i y x = map (\<lambda>k. data t ! (((i * c + k) * h + y) * w + x)) [0..<c]" for i y x
  define g where "g i y = concat (map (e i y) [0..<w])" for i y
  define f where "f i = concat (map (g i) [0..<h])" for i
  define p where "p = \<lparr>shape = [n, h, w, c], data = concat (map f [0..<n])\<rparr>"
  have pe: "permute_0231 t = Inr p"
    by (simp add: permute_0231_def s p_def f_def [abs_def] g_def [abs_def] e_def [abs_def])
  have le: "length (e i y x) = c" for i y x by (simp add: e_def)
  have lg: "length (g i y) = w * c" for i y
    unfolding g_def by (rule length_concat_map_upt) (simp add: le)
  have lf: "length (f i) = h * (w * c)" for i
    unfolding f_def by (rule length_concat_map_upt) (simp add: lg)
  have lp: "length (data p) = n * (h * (w * c))"
    unfolding p_def by (simp add: length_concat_map_upt lf)
  have el: "data p ! (i * (h * (w * c)) + (y * (w * c) + (x * c + k)))
              = data t ! (((i * c + k) * h + y) * w + x)"
    if "i < n" "y < h" "x < w" "k < c" for i y x k
  proof -
    have b1: "x * c + k < w * c" using that by (simp add: idx_bound)
    have b2: "y * (w * c) + (x * c + k) < h * (w * c)" using that b1 by (simp add: idx_bound)
    have "data p ! (i * (h * (w * c)) + (y * (w * c) + (x * c + k)))
            = f i ! (y * (w * c) + (x * c + k))"
      unfolding p_def using that(1) b2 by (simp add: nth_concat_map_upt lf)
    also have "\<dots> = g i y ! (x * c + k)"
      unfolding f_def using that(2) b1 by (simp add: nth_concat_map_upt lg)
    also have "\<dots> = e i y x ! k"
      unfolding g_def using that(3,4) by (simp add: nth_concat_map_upt le)
    also have "\<dots> = data t ! (((i * c + k) * h + y) * w + x)"
      using that(4) by (simp add: e_def)
    finally show ?thesis .
  qed
  show ?thesis
    using pe lp el by (intro exI [of _ p]) (simp add: p_def)
qed


lemma map_err_Inr:
  "(\<And>x. x \<in> set xs \<Longrightarrow> f x = Inr (g x)) \<Longrightarrow> map_err f xs = Inr (map g xs)"
  by (induction xs) (simp_all add: bind_err_def)

lemma flat_view_spec:
  assumes "shape t = n # ds" "0 < n" "length (data t) = n * m" "prod_list ds = m"
  shows "flat_view t = Inr (t\<lparr>shape := [n, m]\<rparr>)"
  using assms
  by (simp add: flat_view_def size0_def view_def infer_size_def numel_def bind_err_def Let_def)

lemma group_view_spec:
  assumes "shape t = [n, m * nat g]" "0 < n" "0 < g"
  shows "group_view g t = Inr (t\<lparr>shape := [n, m, nat g]\<rparr>)"
proof -
  have a: "n * (m * nat g) mod (n * nat g) = 0"
    by (simp add: mult.left_commute)
  have b: "n * (m * nat g) div (n * nat g) = m"
    using assms(2,3) by (simp add: mult.left_commute)
  show ?thesis
    using assms a b
    by (simp add: group_view_def size0_def view_def infer_size_def numel_def bind_err_def Let_def)
qed

lemma length_row:
  assumes "length (data u) = n * (shape u ! 1)" "i < n"
  shows "length (row u i) = shape u ! 1"
proof -
  have "i * (shape u ! 1) + shape u ! 1 \<le> n * (shape u ! 1)"
    using assms(2) by (metis Suc_leI mult_Suc mult_le_mono1 add.commute)
  then show ?thesis using assms(1) by (simp add: row_def)
qed

lemma nth_row:
  assumes "length (data u) = n * (shape u ! 1)" "i < n" "m < shape u ! 1"
  shows "row u i ! m = data u ! (i * (shape u ! 1) + m)"
proof -
  have "i * (shape u ! 1) + m < n * (shape u ! 1)"
    using assms(2,3) by (rule idx_bound)
  then show ?thesis using assms by (simp add: row_def)
qed

lemma cat1_spec:
  assumes ne: "ts \<noteq> []"
    and sh: "\<And>u. u \<in> set ts \<Longrightarrow> length (shape u) = 2 \<and> shape u ! 0 = n
                                  \<and> length (data u) = n * (shape u ! 1)"
  defines "M \<equiv> sum_list (map (\<lambda>u. shape u ! 1) ts)"
  shows "\<exists>r. cat1 ts = Inr r \<and> shape r = [n, M] \<and> length (data r) = n * M
           \<and> (\<forall>i<n. \<forall>k<length ts. \<forall>m<shape (ts ! k) ! 1.
                 data r ! (i * M + (sum_list (map (\<lambda>u. shape u ! 1) (take k ts)) + m))
                   = data (ts ! k) ! (i * (shape (ts ! k) ! 1) + m))"
proof -
  obtain t rest where ts: "ts = t # rest" using ne by (cases ts) auto
  define f where "f i = concat (map (\<lambda>u. row u i) ts)" for i
  define r where "r = \<lparr>shape = [n, M], data = concat (map f [0..<n])\<rparr>"
  have t0: "shape t ! 0 = n" using sh [of t] ts by simp
  have all: "list_all (\<lambda>u. length (shape u) = 2 \<and> shape u ! 0 = shape t ! 0) ts"
    using sh t0 by (simp add: list_all_iff)
  have cr: "cat1 ts = Inr r"
    using all t0 unfolding cat1_def r_def f_def [abs_def] M_def ts by simp
  have lrow: "map length (map (\<lambda>u. row u i) us) = map (\<lambda>u. shape u ! 1) us"
    if "i < n" "set us \<subseteq> set ts" for i us
  proof -
    have "length (row u i) = shape u ! 1" if "u \<in> set us" for u
      using length_row [of u n i] sh [of u] that \<open>i < n\<close> \<open>set us \<subseteq> set ts\<close> by blast
    then show ?thesis by (simp del: One_nat_def)
  qed
  have lf: "length (f i) = M" if "i < n" for i
    unfolding f_def length_concat lrow [OF that subset_refl] M_def by (rule refl)
  have lr: "length (data r) = n * M"
    unfolding r_def by (simp add: length_concat_map_upt lf)
  have el: "data r ! (i * M + (sum_list (map (\<lambda>u. shape u ! 1) (take k ts)) + m))
              = data (ts ! k) ! (i * (shape (ts ! k) ! 1) + m)"
    if "i < n" "k < length ts" "m < shape (ts ! k) ! 1" for i k m
  proof -
    let ?xss = "map (\<lambda>u. row u i) ts"
    let ?off = "sum_list (map (\<lambda>u. shape u ! 1) (take k ts))"
    have tk: "ts ! k \<in> set ts" using that(2) by simp
    have lk: "length (?xss ! k) = shape (ts ! k) ! 1"
      using that sh [OF tk] by (simp add: length_row)
    have off: "sum_list (map length (take k ?xss)) = ?off"
      unfolding take_map lrow [OF that(1) set_take_subset] by (rule refl)
    have "?off + m < M"
    proof -
      have "M = ?off + sum_list (map (\<lambda>u. shape u ! 1) (drop k ts))"
        unfolding M_def by (metis append_take_drop_id map_append sum_list_append)
      moreover have "drop k ts = ts ! k # drop (Suc k) ts"
        using that(2) by (simp add: Cons_nth_drop_Suc)
      ultimately show ?thesis using that(3) by simp
    qed
    then have "data r ! (i * M + (?off + m)) = f i ! (?off + m)"
      unfolding r_def using that(1) by (simp add: nth_concat_map_upt lf)
    also have "\<dots> = ?xss ! k ! m"
      unfolding f_def using nth_concat_offset [of k ?xss m] that(2,3) lk off by simp
    also have "\<dots> = data (ts ! k) ! (i * (shape (ts ! k) ! 1) + m)"
      using that sh [OF tk] by (simp add: nth_row)
    finally show ?thesis .
  qed
  show ?thesis using cr lr el by (intro exI [of _ r]) (simp add: r_def)
qed


lemma cells_take_Suc:
  "k < length ts \<Longrightarrow> cells (take (Suc k) ts) = cells (take k ts) + shape (ts ! k) ! 2 * shape (ts ! k) ! 3"
  by (simp add: cells_def take_Suc_conv_app_nth)

lemma sum_list_scaled:
  "sum_list (map (\<lambda>t. f t * (c::nat)) ts) = sum_list (map f ts) * c"
  by (induction ts) (simp_all add: algebra_simps)

lemma map_err_map_Inr:
  "(\<And>x. x \<in> set xs \<Longrightarrow> f (h x) = Inr (g x)) \<Longrightarrow> map_err f (map h xs) = Inr (map g xs)"
  by (induction xs) (simp_all add: bind_err_def)

lemma flatten_group_spec:
  fixes outs :: "'a tensor list"
  assumes ne: "outs \<noteq> []" and N: "0 < N" and g: "0 < g"
    and sh: "\<And>t. t \<in> set outs \<Longrightarrow>
               \<exists>h w. shape t = [N, q * g, h, w]"
  shows "\<exists>ps ct r. map_err permute_0231 outs = Inr ps \<and> flatten_cat ps = Inr ct
           \<and> group_view (int g) ct = Inr r
           \<and> shape r = [N, q * cells outs, g]
           \<and> length (data r) = N * (q * cells outs * g)
           \<and> (\<forall>k<length outs. \<forall>n<N. \<forall>y<shape (outs ! k) ! 2. \<forall>x<shape (outs ! k) ! 3.
                \<forall>a<q. \<forall>j<g.
                  at3 r n (q * cells (take k outs) + ((y * (shape (outs ! k) ! 3) + x) * q + a)) j
                    = at4 (outs ! k) n (a * g + j) y x)"
proof -
  define C where "C = q * g"
  define H where "H t = shape t ! 2" for t :: "'a tensor"
  define W where "W t = shape t ! 3" for t :: "'a tensor"
  define P where "P t = projr (permute_0231 t)" for t :: "'a tensor"
  define M where "M t = H t * (W t * C)" for t :: "'a tensor"
  define F where "F t = (P t)\<lparr>shape := [N, M t]\<rparr>" for t :: "'a tensor"
  have st: "shape t = [N, C, H t, W t]" if "t \<in> set outs" for t
    using sh [OF that] by (auto simp: H_def W_def C_def)
  have Pt: "permute_0231 t = Inr (P t) \<and> shape (P t) = [N, H t, W t, C]
             \<and> length (data (P t)) = N * M t
             \<and> (\<forall>i<N. \<forall>y<H t. \<forall>x<W t. \<forall>k<C.
                   data (P t) ! (i * M t + (y * (W t * C) + (x * C + k)))
                     = data t ! (((i * C + k) * H t + y) * W t + x))"
    if "t \<in> set outs" for t
    using permute_0231_spec [OF st [OF that]] unfolding P_def M_def by auto
  have ps: "map_err permute_0231 outs = Inr (map P outs)"
    by (rule map_err_Inr) (simp add: Pt)
  have Ft: "flat_view (P t) = Inr (F t)" if "t \<in> set outs" for t
    unfolding F_def
    by (rule flat_view_spec [where ds = "[H t, W t, C]"])
       (use Pt [OF that] N in \<open>simp_all add: M_def\<close>)
  have fs: "map_err flat_view (map P outs) = Inr (map F outs)"
    by (rule map_err_map_Inr) (rule Ft)
  have Fsh: "length (shape u) = 2 \<and> shape u ! 0 = N \<and> length (data u) = N * (shape u ! 1)"
    if "u \<in> set (map F outs)" for u
  proof -
    from that obtain t where "t \<in> set outs" "u = F t" by auto
    then show ?thesis using Pt [of t] by (simp add: F_def)
  qed
  have F1: "map (\<lambda>u. shape u ! 1) (map F us) = map M us" for us
    by (simp add: F_def)
  have Msum: "sum_list (map M us) = cells us * C" for us
  proof -
    have "map M us = map (\<lambda>t. (shape t ! 2 * shape t ! 3) * C) us"
      by (simp add: M_def H_def W_def mult.assoc)
    then show ?thesis by (simp only: sum_list_scaled cells_def)
  qed
  from cat1_spec [of "map F outs" N, OF _ Fsh] ne
  obtain ct where ct: "cat1 (map F outs) = Inr ct"
    and cts: "shape ct = [N, sum_list (map (\<lambda>u. shape u ! 1) (map F outs))]"
    and ctl: "length (data ct) = N * sum_list (map (\<lambda>u. shape u ! 1) (map F outs))"
    and cte: "\<And>i k m. i < N \<Longrightarrow> k < length (map F outs) \<Longrightarrow> m < shape (map F outs ! k) ! 1 \<Longrightarrow>
               data ct ! (i * sum_list (map (\<lambda>u. shape u ! 1) (map F outs))
                          + (sum_list (map (\<lambda>u. shape u ! 1) (take k (map F outs))) + m))
                 = data (map F outs ! k) ! (i * (shape (map F outs ! k) ! 1) + m)"
    by auto
  have cts': "shape ct = [N, (q * cells outs) * g]"
    unfolding cts F1 Msum C_def by (simp add: mult_ac)
  have ctl': "length (data ct) = N * (q * cells outs * g)"
    unfolding ctl F1 Msum C_def by (simp add: mult_ac)
  have fc: "flatten_cat (map P outs) = Inr ct"
    by (simp add: flatten_cat_def fs ct bind_err_def)
  define r where "r = ct\<lparr>shape := [N, q * cells outs, g]\<rparr>"
  have gv: "group_view (int g) ct = Inr r"
    using group_view_spec [of ct N "q * cells outs" "int g"] cts' N g by (simp add: r_def)
  have el: "at3 r n (q * cells (take k outs) + ((y * (shape (outs ! k) ! 3) + x) * q + a)) j
              = at4 (outs ! k) n (a * g + j) y x"
    if "k < length outs" "n < N" "y < shape (outs ! k) ! 2" "x < shape (outs ! k) ! 3"
       "a < q" "j < g" for k n y x a j
  proof -
    let ?t = "outs ! k"
    have tk: "?t \<in> set outs" using that(1) by simp
    have ch: "a * g + j < C" unfolding C_def using that(5,6) by (rule idx_bound)
    have yH: "y < H ?t" and xW: "x < W ?t" using that(3,4) by (simp_all add: H_def W_def)
    define m where "m = y * (W ?t * C) + (x * C + (a * g + j))"
    have mb: "m < M ?t"
      unfolding m_def M_def using yH xW ch by (intro idx_bound) 
    have off: "sum_list (map (\<lambda>u. shape u ! 1) (take k (map F outs))) = cells (take k outs) * C"
      unfolding take_map F1 Msum by (rule refl)
    have tot: "sum_list (map (\<lambda>u. shape u ! 1) (map F outs)) = cells outs * C"
      unfolding F1 Msum by (rule refl)
    have Fk: "map F outs ! k = F ?t" using that(1) by simp
    have Fk1: "shape (F ?t) ! 1 = M ?t" by (simp add: F_def)
    have "at3 r n (q * cells (take k outs) + ((y * (shape ?t ! 3) + x) * q + a)) j
            = data ct ! ((n * (q * cells outs) + (q * cells (take k outs) + ((y * W ?t + x) * q + a))) * g + j)"
      by (simp add: at3_def r_def W_def)
    also have "(n * (q * cells outs) + (q * cells (take k outs) + ((y * W ?t + x) * q + a))) * g + j
                 = n * (cells outs * C) + (cells (take k outs) * C + m)"
      unfolding m_def C_def by (simp add: algebra_simps)
    also have "data ct ! (n * (cells outs * C) + (cells (take k outs) * C + m))
                 = data (F ?t) ! (n * M ?t + m)"
      using cte [of n k m] that(1,2) mb unfolding off tot Fk Fk1 by simp
    also have "\<dots> = data (P ?t) ! (n * M ?t + (y * (W ?t * C) + (x * C + (a * g + j))))"
      by (simp add: F_def m_def)
    also have "\<dots> = data ?t ! (((n * C + (a * g + j)) * H ?t + y) * W ?t + x)"
      using Pt [OF tk] that(2) yH xW ch by blast
    also have "\<dots> = at4 ?t n (a * g + j) y x"
      using st [OF tk] by (simp add: at4_def)
    finally show ?thesis .
  qed
  show ?thesis
    using ps fc gv ctl' el by (intro exI [of _ "map P outs"] exI [of _ ct] exI [of _ r]) (simp add: r_def)
qed


lemma head_loop_Inr:
  assumes "\<And>x l c. (x, l, c) \<in> set xs \<Longrightarrow>
             run l x = Inr (LX l x) \<and> permute_0231 (LX l x) = Inr (LP l x)
             \<and> run c x = Inr (LX c x) \<and> permute_0231 (LX c x) = Inr (LP c x)"
  shows "head_loop run xs (la, ca)
           = Inr (la @ map (\<lambda>(x, l, c). LP l x) xs, ca @ map (\<lambda>(x, l, c). LP c x) xs)"
  using assms
proof (induction xs arbitrary: la ca)
  case Nil
  then show ?case by simp
next
  case (Cons z xs)
  obtain x l c where z: "z = (x, l, c)" by (cases z)
  have h: "run l x = Inr (LX l x)" "permute_0231 (LX l x) = Inr (LP l x)"
    "run c x = Inr (LX c x)" "permute_0231 (LX c x) = Inr (LP c x)"
    using Cons.prems [of x l c] z by simp_all
  have "head_loop run xs (la @ [LP l x], ca @ [LP c x])
          = Inr ((la @ [LP l x]) @ map (\<lambda>(x, l, c). LP l x) xs,
                 (ca @ [LP c x]) @ map (\<lambda>(x, l, c). LP c x) xs)"
    by (rule Cons.IH) (use Cons.prems in \<open>simp del: split_paired_All\<close>, blast)
  then show ?case by (simp add: z h bind_err_def)
qed

lemma zip_replicate_pairs:
  "length xs = n \<Longrightarrow> zip xs (zip (replicate n a) (replicate n b)) = map (\<lambda>x. (x, a, b)) xs"
  by (induction xs arbitrary: n) auto

lemma cells_map_cong:
  "(\<And>x. x \<in> set xs \<Longrightarrow> shape (f x) ! 2 = shape x ! 2 \<and> shape (f x) ! 3 = shape x ! 3)
     \<Longrightarrow> cells (map f xs) = cells xs"
  unfolding cells_def by (induction xs) simp_all

lemma Detector_forward_spec:
  fixes fea :: "'a tensor list"
  assumes init: "Detector_init new_backbone new_neck sz ncls backbone_name neck_name = Inr d"
    and ncls: "2 \<le> ncls"
    and len: "length fea = fpn_level d"
    and N: "0 < N"
    and fsh: "\<And>x. x \<in> set fea \<Longrightarrow>
                \<exists>h w. 0 < h \<and> 0 < w \<and> shape x = [N, nat (fea_channel d), h, w]"
    and run: "conv_like run"
  shows "\<exists>lo co. Detector_forward run d fea = Inr (lo, co)
           \<and> shape lo = [N, 6 * cells fea, 4] \<and> wf_tensor lo
           \<and> shape co = [N, 6 * cells fea, nat (ncls - 1)] \<and> wf_tensor co
           \<and> (\<forall>k<length fea. \<forall>n<N. \<forall>y<shape (fea ! k) ! 2. \<forall>x<shape (fea ! k) ! 3. \<forall>a<6.
                (\<forall>j<4. \<exists>lx. run (loc d ! k) (fea ! k) = Inr lx \<and>
                   at3 lo n (6 * cells (take k fea) + ((y * (shape (fea ! k) ! 3) + x) * 6 + a)) j
                     = at4 lx n (a * 4 + j) y x)
              \<and> (\<forall>j<nat (ncls - 1). \<exists>cx. run (conf d ! k) (fea ! k) = Inr cx \<and>
                   at3 co n (6 * cells (take k fea) + ((y * (shape (fea ! k) ! 3) + x) * 6 + a)) j
                     = at4 cx n (a * nat (ncls - 1) + j) y x))"
proof -
  note r = Detector_init_Inr [OF init]
  have fl: "fpn_level d = (if sz < 512 then 4 else 5)" using r by blast
  have mb: "multibox (fpn_level d) 6 (ncls - 1) (fea_channel d) = Inr (loc d, conf d)"
    using r by blast
  have nc: "num_classes d = ncls - 1" using r by blast
  define g where "g = nat (ncls - 1)"
  have g: "0 < g" "int g = ncls - 1" using ncls by (simp_all add: g_def)
  define L where "L = \<lparr>conv_in = fea_channel d, conv_out = 6 * 4, conv_kernel = 3, conv_padding = 1\<rparr>"
  define K where "K = \<lparr>conv_in = fea_channel d, conv_out = 6 * (ncls - 1), conv_kernel = 3, conv_padding = 1\<rparr>"
  have ld: "loc d = replicate (fpn_level d) L" and cd: "conf d = replicate (fpn_level d) K"
    using multibox_Inr [OF mb] by (simp_all add: L_def K_def)
  have Lo: "nat (conv_out L) = 6 * 4" by (simp add: L_def)
  have Ko: "nat (conv_out K) = 6 * g"
    using ncls by (simp add: K_def g_def nat_mult_distrib)
  define LX where "LX l x = projr (run l x)" for l and x :: "'a tensor"
  define LP where "LP l x = projr (permute_0231 (LX l x))" for l and x :: "'a tensor"
  have rn: "run l x = Inr (LX l x) \<and> shape (LX l x) = [N, nat (conv_out l), shape x ! 2, shape x ! 3]"
    if "x \<in> set fea" "l = L \<or> l = K" for l x
  proof -
    from fsh [OF that(1)] obtain h w where hw: "0 < h" "0 < w" "shape x = [N, nat (fea_channel d), h, w]"
      by blast
    have "shape x = [N, nat (conv_in l), h, w]" "conv_kernel l = 3" "conv_padding l = 1"
      using that(2) hw by (auto simp: L_def K_def)
    with run hw obtain y where "run l x = Inr y" "shape y = [N, nat (conv_out l), h, w]"
      unfolding conv_like_def by blast
    then show ?thesis using hw by (simp add: LX_def)
  qed
  have pm: "permute_0231 (LX l x) = Inr (LP l x)" if "x \<in> set fea" "l = L \<or> l = K" for l x
    using permute_0231_spec [of "LX l x"] rn [OF that] unfolding LP_def by fastforce
  have xs: "zip fea (zip (loc d) (conf d)) = map (\<lambda>x. (x, L, K)) fea"
    unfolding ld cd using len by (rule zip_replicate_pairs)
  have hl: "head_loop run (zip fea (zip (loc d) (conf d))) ([], [])
              = Inr (map (LP L) fea, map (LP K) fea)"
  proof -
    have "head_loop run (map (\<lambda>x. (x, L, K)) fea) ([], [])
            = Inr ([] @ map (\<lambda>(x, l, c). LP l x) (map (\<lambda>x. (x, L, K)) fea),
                   [] @ map (\<lambda>(x, l, c). LP c x) (map (\<lambda>x. (x, L, K)) fea))"
      by (rule head_loop_Inr) (use rn pm in auto)
    then show ?thesis by (simp add: xs comp_def)
  qed
  have "0 < fpn_level d" using fl by (simp split: if_splits)
  then have ne: "fea \<noteq> []" using len by auto
  have pipeline: "\<exists>ct r. flatten_cat (map (LP l) fea) = Inr ct
           \<and> group_view (int g') ct = Inr r
           \<and> shape r = [N, 6 * cells fea, g']
           \<and> wf_tensor r
           \<and> (\<forall>k<length fea. \<forall>n<N. \<forall>y<shape (fea ! k) ! 2. \<forall>x<shape (fea ! k) ! 3.
                \<forall>a<6. \<forall>j<g'.
                  at3 r n (6 * cells (take k fea) + ((y * (shape (fea ! k) ! 3) + x) * 6 + a)) j
                    = at4 (LX l (fea ! k)) n (a * g' + j) y x)"
    if l: "l = L \<or> l = K" and g': "0 < g'" "nat (conv_out l) = 6 * g'" for l g'
  proof -
    let ?outs = "map (LX l) fea"
    have sh: "\<exists>h w. shape t = [N, 6 * g', h, w]" if "t \<in> set ?outs" for t
      using that rn l g' by auto
    have ce: "cells (map (LX l) us) = cells us" if "set us \<subseteq> set fea" for us
      by (rule cells_map_cong) (use rn l that in auto)
    from flatten_group_spec [of ?outs N g' 6, OF _ N g'(1) sh] ne
    obtain ps ct r where ps: "map_err permute_0231 ?outs = Inr ps"
      and fc: "flatten_cat ps = Inr ct" and gv: "group_view (int g') ct = Inr r"
      and rs: "shape r = [N, 6 * cells ?outs, g']"
      and rl: "length (data r) = N * (6 * cells ?outs * g')"
      and el: "\<And>k n y x a j. k < length ?outs \<Longrightarrow> n < N \<Longrightarrow> y < shape (?outs ! k) ! 2 \<Longrightarrow>
                 x < shape (?outs ! k) ! 3 \<Longrightarrow> a < 6 \<Longrightarrow> j < g' \<Longrightarrow>
                 at3 r n (6 * cells (take k ?outs) + ((y * (shape (?outs ! k) ! 3) + x) * 6 + a)) j
                   = at4 (?outs ! k) n (a * g' + j) y x"
      by auto
    have "map_err permute_0231 ?outs = Inr (map (LP l) fea)"
      by (rule map_err_map_Inr) (use pm l in auto)
    with ps have pse: "ps = map (LP l) fea" by simp
    have k23: "shape (?outs ! k) ! 2 = shape (fea ! k) ! 2" "shape (?outs ! k) ! 3 = shape (fea ! k) ! 3"
      if "k < length fea" for k
      using rn [of "fea ! k" l] l that by auto
    have el': "at3 r n (6 * cells (take k fea) + ((y * (shape (fea ! k) ! 3) + x) * 6 + a)) j
                    = at4 (LX l (fea ! k)) n (a * g' + j) y x"
      if "k < length fea" "n < N" "y < shape (fea ! k) ! 2" "x < shape (fea ! k) ! 3" "a < 6" "j < g'"
      for k n y x a j
      using el [of k n y x a j] that k23 [OF that(1)] ce [of "take k fea"]
      by (simp add: take_map set_take_subset)
    have "wf_tensor r" using rs rl by (simp add: wf_tensor_def numel_def)
    then show ?thesis
      using fc gv rs el' ce [of fea] unfolding pse by auto
  qed
  from pipeline [of L 4] Lo obtain lc lo where
    lc: "flatten_cat (map (LP L) fea) = Inr lc" "group_view 4 lc = Inr lo"
      "shape lo = [N, 6 * cells fea, 4]" "wf_tensor lo"
    and le: "\<And>k n y x a j. k < length fea \<Longrightarrow> n < N \<Longrightarrow> y < shape (fea ! k) ! 2 \<Longrightarrow>
               x < shape (fea ! k) ! 3 \<Longrightarrow> a < 6 \<Longrightarrow> j < 4 \<Longrightarrow>
                  at3 lo n (6 * cells (take k fea) + ((y * (shape (fea ! k) ! 3) + x) * 6 + a)) j
                    = at4 (LX L (fea ! k)) n (a * 4 + j) y x"
    by auto
  from pipeline [of K g] Ko g obtain cc co where
    cc: "flatten_cat (map (LP K) fea) = Inr cc" "group_view (int g) cc = Inr co"
      "shape co = [N, 6 * cells fea, g]" "wf_tensor co"
    and ce: "\<And>k n y x a j. k < length fea \<Longrightarrow> n < N \<Longrightarrow> y < shape (fea ! k) ! 2 \<Longrightarrow>
               x < shape (fea ! k) ! 3 \<Longrightarrow> a < 6 \<Longrightarrow> j < g \<Longrightarrow>
                  at3 co n (6 * cells (take k fea) + ((y * (shape (fea ! k) ! 3) + x) * 6 + a)) j
                    = at4 (LX K (fea ! k)) n (a * g + j) y x"
    by auto
  have cv: "group_view (num_classes d) cc = Inr co"
    using cc(2) unfolding g(2) nc .
  have fw: "Detector_forward run d fea = Inr (lo, co)"
    by (simp add: Detector_forward_def hl lc cc(1) cv bind_err_def)
  have lk: "loc d ! k = L" "conf d ! k = K" if "k < length fea" for k
    using that len by (simp_all add: ld cd)
  have rk: "run (loc d ! k) (fea ! k) = Inr (LX L (fea ! k))"
    "run (conf d ! k) (fea ! k) = Inr (LX K (fea ! k))" if "k < length fea" for k
    using rn [of "fea ! k"] lk [OF that] that by simp_all
  show ?thesis
    using fw lc(3,4) cc(3,4) le ce rk unfolding g_def [symmetric]
    by (intro exI [of _ lo] exI [of _ co]) simp
qed

lemma cells_take_le:
  "k < length ts \<Longrightarrow> cells (take k ts) + shape (ts ! k) ! 2 * shape (ts ! k) ! 3 \<le> cells ts"
proof -
  assume k: "k < length ts"
  have "cells ts = cells (take (Suc k) ts) + cells (drop (Suc k) ts)"
  proof -
    have "ts = take (Suc k) ts @ drop (Suc k) ts" by simp
    then have "cells ts = cells (take (Suc k) ts @ drop (Suc k) ts)" by simp
    then show ?thesis unfolding cells_def map_append sum_list_append .
  qed
  then show ?thesis unfolding cells_take_Suc [OF k] by linarith
qed

lemma anchor_index_bound:
  assumes "k < length fea" "y < shape (fea ! k) ! 2" "x < shape (fea ! k) ! 3" "a < 6"
  shows "anchor_index fea k y x a < 6 * cells fea"
proof -
  let ?h = "shape (fea ! k) ! 2" and ?w = "shape (fea ! k) ! 3"
  have "y * ?w + x < ?h * ?w" using assms(2,3) by (rule idx_bound)
  then have "(y * ?w + x) * 6 + a < (?h * ?w) * 6" using assms(4) by (rule idx_bound)
  moreover have "p * 6 + a < q * 6 \<Longrightarrow> 6 * c + (p * 6 + a) < 6 * (c + q)" for p q c :: nat
    by arith
  ultimately have "anchor_index fea k y x a < 6 * (cells (take k fea) + ?h * ?w)"
    unfolding anchor_index_def by blast
  also have "\<dots> \<le> 6 * cells fea"
    using cells_take_le [OF assms(1)] by (rule mult_le_mono2)
  finally show ?thesis .
qed

lemma index_conv_like: "conv_like index_conv"
  unfolding conv_like_def
proof (intro allI impI)
  fix l :: conv2d and x :: "nat tensor" and n h w
  assume "shape x = [n, nat (conv_in l), h, w] \<and> 0 < h \<and> 0 < w
            \<and> conv_kernel l = 3 \<and> conv_padding l = 1"
  then show "\<exists>y. index_conv l x = Inr y \<and> shape y = [n, nat (conv_out l), h, w]"
    by (simp add: index_conv_def)
qed

lemma Detector_init_320:
  "\<exists>d. Detector_init (\<lambda>_. None) (\<lambda>_ _ _ _. None) 320 21 ''repvgg'' ''pafpn'' = Inr d
     \<and> fpn_level d = 4 \<and> fea_channel d = 256
     \<and> loc d ! 1 = \<lparr>conv_in = 256, conv_out = 24, conv_kernel = 3, conv_padding = 1\<rparr>"
  by (simp add: Detector_init_def Detector_params_def select_backbone_def select_neck_def
      multibox_def nn_Conv2d_def numeral_nat)

lemma pyramid_320:
  "\<forall>x\<in>set [feature_map 1 256 40 40, feature_map 1 256 20 20,
               feature_map 1 256 10 10, feature_map 1 256 5 5].
     \<exists>h w. 0 < h \<and> 0 < w \<and> shape x = [1, nat 256, h, w]"
  by (simp add: feature_map_def)

lemma cells_pyramid_320:
  "cells [feature_map 1 256 40 40, feature_map 1 256 20 20,
          feature_map 1 256 10 10, feature_map 1 256 5 5] = 2125"
  by (simp add: cells_def feature_map_def)

section \<open>Post-processing: thresholding and the cap\<close>

lemma filter_conv_nth:
  "filter Q xs = map (\<lambda>k. xs ! k) (filter (\<lambda>k. Q (xs ! k)) [0..<length xs])"
proof (induction xs rule: rev_induct)
  case Nil
  then show ?case by simp
next
  case (snoc x xs)
  have "map (\<lambda>k. (xs @ [x]) ! k) (filter (\<lambda>k. Q ((xs @ [x]) ! k)) [0..<length xs])
          = map (\<lambda>k. xs ! k) (filter (\<lambda>k. Q (xs ! k)) [0..<length xs])"
    by (intro map_cong filter_cong) (auto simp: nth_append)
  with snoc show ?case by simp
qed

lemma take_rows_ok:
  "(\<And>k. k \<in> set inds \<Longrightarrow> k < length a) \<Longrightarrow> take_rows a inds = Inr (map (\<lambda>k. a ! k) inds)"
  by (simp add: take_rows_def list_all_iff)

lemma zip_rows:
  "(\<And>k. k \<in> set inds \<Longrightarrow> k < length a \<and> k < length b) \<Longrightarrow>
     zip (map (\<lambda>k. a ! k) inds) (map (\<lambda>k. b ! k) inds) = map (\<lambda>k. zip a b ! k) inds"
  by (induction inds) simp_all

lemma nms_candidates_filter:
  assumes "length boxes = length col"
  shows "nms_candidates boxes col =
           Inr (if \<exists>s\<in>set col. thresh < s
                then Some (filter (\<lambda>d. thresh < snd d) (zip boxes col)) else None)"
proof -
  let ?inds = "where_above col"
  have b: "k < length col" if "k \<in> set ?inds" for k
    using that by (simp add: where_above_def)
  have tb: "take_rows boxes ?inds = Inr (map (\<lambda>k. boxes ! k) ?inds)"
    by (rule take_rows_ok) (use b assms in simp)
  have tc: "take_rows col ?inds = Inr (map (\<lambda>k. col ! k) ?inds)"
    by (rule take_rows_ok) (use b in simp)
  have z: "zip (map (\<lambda>k. boxes ! k) ?inds) (map (\<lambda>k. col ! k) ?inds)
             = map (\<lambda>k. zip boxes col ! k) ?inds"
    by (rule zip_rows) (use b assms in simp)
  have "filter (\<lambda>d. thresh < snd d) (zip boxes col)
          = map (\<lambda>k. zip boxes col ! k)
              (filter (\<lambda>k. thresh < snd (zip boxes col ! k)) [0..<length (zip boxes col)])"
    by (rule filter_conv_nth)
  also have "filter (\<lambda>k. thresh < snd (zip boxes col ! k)) [0..<length (zip boxes col)] = ?inds"
    unfolding where_above_def using assms by (intro filter_cong) auto
  finally have f: "filter (\<lambda>d. thresh < snd d) (zip boxes col) = map (\<lambda>k. zip boxes col ! k) ?inds" .
  have e: "(?inds = []) = (\<not> (\<exists>s\<in>set col. thresh < s))"
    unfolding where_above_def filter_empty_conv
    by (metis atLeastLessThan_iff in_set_conv_nth set_upt zero_le)
  show ?thesis
    using e by (simp add: nms_candidates_def Let_def tb tc f z)
qed

lemma column_ok:
  "(\<And>r. r \<in> set m \<Longrightarrow> c < length r) \<Longrightarrow> column m c = Inr (map (\<lambda>r. r ! c) m)"
  by (simp add: column_def list_all_iff)

lemma class_loop_spec:
  assumes "distinct js"
    and "\<And>j. j \<in> set js \<Longrightarrow> j < length acc \<and> column scores (j - 1) = Inr (C j)
              \<and> nms_candidates boxes (C j) = Inr (if K j = [] then None else Some (K j))
              \<and> take_rows (K j) (nms (K j) t) = Inr (R j)"
  shows "\<exists>out. class_loop nms t boxes scores js acc = Inr out \<and> length out = length acc
           \<and> (\<forall>i<length acc. out ! i
                  = (if i \<in> set js then (if K i = [] then Array [] else Array (R i))
                     else acc ! i))"
  using assms
proof (induction js arbitrary: acc)
  case Nil
  then show ?case by simp
next
  case (Cons j js)
  define v where "v = (if K j = [] then Array [] else Array (R j))"
  have j: "j < length acc" "column scores (j - 1) = Inr (C j)"
    "nms_candidates boxes (C j) = Inr (if K j = [] then None else Some (K j))"
    "take_rows (K j) (nms (K j) t) = Inr (R j)"
    using Cons.prems(2) [of j] by simp_all
  have step: "class_loop nms t boxes scores (j # js) acc
                = class_loop nms t boxes scores js (acc[j := v])"
    using j by (simp add: store_def v_def)
  have "\<exists>out. class_loop nms t boxes scores js (acc[j := v]) = Inr out
           \<and> length out = length (acc[j := v])
           \<and> (\<forall>i<length (acc[j := v]). out ! i
                  = (if i \<in> set js then (if K i = [] then Array [] else Array (R i))
                     else (acc[j := v]) ! i))"
    by (rule Cons.IH) (use Cons.prems in auto)
  then obtain out where o: "class_loop nms t boxes scores js (acc[j := v]) = Inr out"
    "length out = length acc"
    "\<And>i. i < length acc \<Longrightarrow> out ! i
            = (if i \<in> set js then (if K i = [] then Array [] else Array (R i))
               else (acc[j := v]) ! i)"
    by auto
  have "out ! i = (if i \<in> set (j # js) then (if K i = [] then Array [] else Array (R i))
                   else acc ! i)" if "i < length acc" for i
    using o(3) [OF that] that Cons.prems(1) by (auto simp: nth_list_update v_def)
  then show ?case unfolding step using o(1,2) by simp
qed

lemma candidates_empty_iff:
  "length boxes = length col \<Longrightarrow>
     (filter (\<lambda>d. thresh < snd d) (zip boxes col) = []) = (\<not> (\<exists>s\<in>set col. thresh < s))"
proof -
  assume l: "length boxes = length col"
  have "set col = snd ` set (zip boxes col)"
    using l by (metis map_snd_zip set_map)
  then show ?thesis by (auto simp: filter_empty_conv)
qed

lemma nms_candidates_spec:
  assumes "length boxes = length col"
  defines "cands \<equiv> filter (\<lambda>d. thresh < snd d) (zip boxes col)"
  shows "nms_candidates boxes col = Inr (if cands = [] then None else Some cands)"
  using nms_candidates_filter [OF assms(1)] candidates_empty_iff [OF assms(1)]
  unfolding cands_def by simp

lemma fold_update_nth:
  assumes "distinct js" "\<And>j. j \<in> set js \<Longrightarrow> j < length acc" "i < length acc"
  shows "length (fold (\<lambda>j a. a[j := f (a ! j)]) js acc) = length acc
       \<and> fold (\<lambda>j a. a[j := f (a ! j)]) js acc ! i = (if i \<in> set js then f (acc ! i) else acc ! i)"
  using assms
proof (induction js arbitrary: acc)
  case Nil
  then show ?case by simp
next
  case (Cons j js)
  have "length (fold (\<lambda>j a. a[j := f (a ! j)]) js (acc[j := f (acc ! j)])) = length (acc[j := f (acc ! j)])
       \<and> fold (\<lambda>j a. a[j := f (a ! j)]) js (acc[j := f (acc ! j)]) ! i
           = (if i \<in> set js then f (acc[j := f (acc ! j)] ! i) else acc[j := f (acc ! j)] ! i)"
    by (rule Cons.IH) (use Cons.prems in auto)
  then show ?case using Cons.prems by (auto simp: nth_list_update)
qed

lemma keep_above_nth:
  assumes "length ab = nc" "j < nc"
  shows "keep_above T [1..<nc] ab ! j = (if 1 \<le> j then filter (\<lambda>d. T \<le> snd d) (ab ! j) else ab ! j)"
  using fold_update_nth [of "[1..<nc]" ab j "filter (\<lambda>d. T \<le> snd d)"] assms
  by (simp add: keep_above_def)

lemma length_keep_above: "length (keep_above T js ab) = length ab"
  unfolding keep_above_def by (induction js arbitrary: ab) simp_all

lemma image_scores_cong:
  "(\<And>j. 1 \<le> j \<Longrightarrow> j < nc \<Longrightarrow> map snd (a ! j) = f (map snd (b ! j))) \<Longrightarrow>
     image_scores nc a = concat (map (\<lambda>j. f (map snd (b ! j))) [1..<nc])"
  unfolding image_scores_def by (intro arg_cong [where f = concat] map_cong) auto

lemma image_scores_keep_above:
  assumes "length ab = nc"
  shows "image_scores nc (keep_above T [1..<nc] ab) = filter (\<lambda>s. T \<le> s) (image_scores nc ab)"
proof -
  have "image_scores nc (keep_above T [1..<nc] ab)
          = concat (map (\<lambda>j. filter (\<lambda>s. T \<le> s) (map snd (ab ! j))) [1..<nc])"
  proof (rule image_scores_cong)
    fix j assume j: "1 \<le> j" "j < nc"
    have "keep_above T [1..<nc] ab ! j = filter (\<lambda>d. T \<le> snd d) (ab ! j)"
      using keep_above_nth [OF assms j(2), of T] j(1) by simp
    then show "map snd (keep_above T [1..<nc] ab ! j) = filter (\<lambda>s. T \<le> s) (map snd (ab ! j))"
      by (simp add: filter_map comp_def)
  qed
  also have "\<dots> = filter (\<lambda>s. T \<le> s) (image_scores nc ab)"
    by (simp add: image_scores_def filter_concat comp_def)
  finally show ?thesis .
qed

lemma kth_highest_sort:
  assumes "0 < m" "m \<le> length xs"
  shows "kth_highest m xs = sort xs ! (length xs - m)"
proof -
  have "rev (sort xs) ! (m - 1) = sort xs ! (length (sort xs) - Suc (m - 1))"
    by (rule rev_nth) (use assms in simp)
  then show ?thesis using assms by (simp add: kth_highest_def)
qed

lemma length_filter_sort:
  "length (filter P (sort xs)) = length (filter P xs)"
proof -
  have "mset (filter P (sort xs)) = mset (filter P xs)" by simp
  then show ?thesis by (rule mset_eq_length)
qed

lemma sorted_filter_ge:
  fixes ys :: "real list"
  assumes "sorted ys" "i < length ys"
  shows "filter (\<lambda>s. ys ! i \<le> s) ys = filter (\<lambda>s. ys ! i \<le> s) (take i ys) @ drop i ys"
proof -
  have "\<forall>s\<in>set (drop i ys). ys ! i \<le> s"
    using assms by (auto simp: in_set_conv_nth sorted_iff_nth_mono)
  then have "filter (\<lambda>s. ys ! i \<le> s) (drop i ys) = drop i ys" by simp
  moreover have "filter (\<lambda>s. ys ! i \<le> s) ys
      = filter (\<lambda>s. ys ! i \<le> s) (take i ys) @ filter (\<lambda>s. ys ! i \<le> s) (drop i ys)"
    by (metis append_take_drop_id filter_append)
  ultimately show ?thesis by simp
qed

lemma sorted_take_below:
  fixes ys :: "real list"
  assumes "sorted ys" "0 < i" "i < length ys"
  shows "(filter (\<lambda>s. ys ! i \<le> s) (take i ys) = []) = (ys ! (i - 1) < ys ! i)"
proof
  assume "filter (\<lambda>s. ys ! i \<le> s) (take i ys) = []"
  then have "\<forall>s\<in>set (take i ys). \<not> ys ! i \<le> s" by (simp add: filter_empty_conv)
  moreover have "ys ! (i - 1) \<in> set (take i ys)"
    using assms by (auto simp: in_set_conv_nth intro!: exI [of _ "i - 1"])
  ultimately show "ys ! (i - 1) < ys ! i" by auto
next
  assume lt: "ys ! (i - 1) < ys ! i"
  have "s \<le> ys ! (i - 1)" if "s \<in> set (take i ys)" for s
  proof -
    from that obtain k where "k < i" "s = ys ! k"
      using assms by (auto simp: in_set_conv_nth)
    then show ?thesis using assms by (auto simp: sorted_iff_nth_mono)
  qed
  with lt show "filter (\<lambda>s. ys ! i \<le> s) (take i ys) = []"
    by (fastforce simp: filter_empty_conv)
qed

lemma cap_at_spec:
  assumes len: "length ab = nc" and m: "0 < m" "m < total_dets nc ab"
  defines "T \<equiv> kth_highest m (image_scores nc ab)"
  defines "out \<equiv> keep_above T [1..<nc] ab"
  shows "cap_at m nc ab = Inr out"
    and "image_scores nc out = filter (\<lambda>s. T \<le> s) (image_scores nc ab)"
    and "m \<le> total_dets nc out"
    and "(total_dets nc out = m) = (kth_highest (Suc m) (image_scores nc ab) < T)"
    and "mset (take m (rev (sort (image_scores nc ab)))) \<subseteq># mset (image_scores nc out)"
    and "total_dets nc out = m \<Longrightarrow>
           mset (image_scores nc out) = mset (take m (rev (sort (image_scores nc ab))))"
proof -
  let ?scs = "image_scores nc ab"
  let ?ys = "sort ?scs"
  let ?n = "length ?scs"
  let ?i = "?n - m"
  have n: "m < ?n" using m(2) by (simp add: total_dets_def)
  have i: "0 < ?i" "?i < length ?ys" using n m(1) by simp_all
  have T: "T = ?ys ! ?i"
    unfolding T_def by (rule kth_highest_sort) (use m n in simp_all)
  have ne: "[1..<nc] \<noteq> []"
  proof
    assume "[1..<nc] = []"
    then have "?scs = []" unfolding image_scores_def by (simp del: upt_eq_Nil_conv)
    with n show False by simp
  qed
  show c: "cap_at m nc ab = Inr out"
    using m(1) ne n T by (simp add: cap_at_def Let_def out_def)
  show sc: "image_scores nc out = filter (\<lambda>s. T \<le> s) ?scs"
    unfolding out_def by (rule image_scores_keep_above [OF len])
  have split: "filter (\<lambda>s. T \<le> s) ?ys = filter (\<lambda>s. T \<le> s) (take ?i ?ys) @ drop ?i ?ys"
    unfolding T by (rule sorted_filter_ge) (use i in simp_all)
  have cnt: "total_dets nc out = length (filter (\<lambda>s. T \<le> s) (take ?i ?ys)) + m"
  proof -
    have "total_dets nc out = length (filter (\<lambda>s. T \<le> s) ?ys)"
      by (simp add: total_dets_def sc length_filter_sort)
    also have "\<dots> = length (filter (\<lambda>s. T \<le> s) (take ?i ?ys)) + length (drop ?i ?ys)"
      by (simp only: split length_append)
    also have "length (drop ?i ?ys) = m" using n by simp
    finally show ?thesis .
  qed
  then show "m \<le> total_dets nc out" by simp
  have k1: "kth_highest (Suc m) ?scs = ?ys ! (?i - 1)"
    using kth_highest_sort [of "Suc m" ?scs] n by simp
  have "(total_dets nc out = m) = (filter (\<lambda>s. T \<le> s) (take ?i ?ys) = [])"
    using cnt by simp
  also have "\<dots> = (?ys ! (?i - 1) < ?ys ! ?i)"
    unfolding T by (rule sorted_take_below) (use i in simp_all)
  finally show tie: "(total_dets nc out = m) = (kth_highest (Suc m) ?scs < T)"
    unfolding k1 T .
  have top: "mset (take m (rev ?ys)) = mset (drop ?i ?ys)"
    by (simp add: take_rev)
  have ms: "mset (image_scores nc out) = mset (filter (\<lambda>s. T \<le> s) (take ?i ?ys)) + mset (drop ?i ?ys)"
  proof -
    have "mset (image_scores nc out) = mset (filter (\<lambda>s. T \<le> s) ?ys)"
      by (simp add: sc)
    then show ?thesis by (simp only: split mset_append)
  qed
  show "mset (take m (rev ?ys)) \<subseteq># mset (image_scores nc out)"
    unfolding top ms by simp
  show "mset (image_scores nc out) = mset (take m (rev ?ys))" if "total_dets nc out = m"
  proof -
    have "filter (\<lambda>s. T \<le> s) (take ?i ?ys) = []" using that cnt by simp
    then show ?thesis unfolding top ms by simp
  qed
qed

lemma kth_highest_mono:
  assumes "0 < m" "m < length xs"
  shows "kth_highest (Suc m) xs \<le> kth_highest m xs"
proof -
  have "sort xs ! (length xs - Suc m) \<le> sort xs ! (length xs - m)"
    by (rule sorted_nth_mono) (use assms in simp_all)
  then show ?thesis
    using kth_highest_sort [of m xs] kth_highest_sort [of "Suc m" xs] assms by simp
qed

lemma kth_highest_distinct:
  assumes "0 < m" "m < length xs" "distinct xs"
  shows "kth_highest (Suc m) xs < kth_highest m xs"
proof -
  have "sorted_wrt (<) (sort xs)"
    using assms(3) by (simp add: strict_sorted_iff)
  then have "sort xs ! (length xs - Suc m) < sort xs ! (length xs - m)"
    by (rule sorted_wrt_nth_less) (use assms in simp_all)
  then show ?thesis
    using kth_highest_sort [of m xs] kth_highest_sort [of "Suc m" xs] assms by simp
qed

lemma max_per_image_pos: "0 < max_per_image"
  by (simp add: max_per_image_def)

lemma image_scores_2: "image_scores 2 [a, ds] = map snd ds"
  by (simp add: image_scores_def upt_rec)

lemma image_scores_3: "image_scores 3 [a, ds, es] = map snd ds @ map snd es"
  by (simp add: image_scores_def upt_rec)

lemma keep_above_2: "keep_above T [1..<2] [a, ds] = [a, filter (\<lambda>d. T \<le> snd d) ds]"
  by (simp add: keep_above_def upt_rec)

lemma kth_highest_sorted:
  assumes "sorted xs" "0 < m" "m \<le> length xs"
  shows "kth_highest m xs = xs ! (length xs - m)"
  using kth_highest_sort [OF assms(2,3)] assms(1) by (simp add: sorted_sort_id)

lemma tied_301:
  fixes d :: det
  defines "ab \<equiv> [[], replicate 301 d]"
  shows "total_dets 2 ab = 301"
    and "kth_highest 300 (image_scores 2 ab) = snd d"
    and "kth_highest 301 (image_scores 2 ab) = snd d"
proof -
  have sc: "image_scores 2 ab = replicate 301 (snd d)"
    by (simp add: ab_def image_scores_2)
  show "total_dets 2 ab = 301" by (simp add: total_dets_def sc)
  have so: "sorted (replicate 301 (snd d))" by (simp add: sorted_replicate)
  show "kth_highest 300 (image_scores 2 ab) = snd d"
    unfolding sc using kth_highest_sorted [OF so, of 300] by simp
  show "kth_highest 301 (image_scores 2 ab) = snd d"
    unfolding sc using kth_highest_sorted [OF so, of 301] by simp
qed

lemma one_low_300:
  fixes b :: box
  defines "ab \<equiv> [[], (b, 1 / 10) # replicate 300 (b, 9 / 10)]"
  shows "total_dets 2 ab = 301"
    and "kth_highest 300 (image_scores 2 ab) = 9 / 10"
    and "kth_highest 301 (image_scores 2 ab) = 1 / 10"
proof -
  have sc: "image_scores 2 ab = 1 / 10 # replicate 300 (9 / 10)"
    by (simp add: ab_def image_scores_2)
  show "total_dets 2 ab = 301" by (simp add: total_dets_def sc)
  have so: "sorted ((1 / 10 :: real) # replicate 300 (9 / 10))" by (simp add: sorted_replicate)
  show "kth_highest 300 (image_scores 2 ab) = 9 / 10"
    unfolding sc using kth_highest_sorted [OF so, of 300] by simp
  show "kth_highest 301 (image_scores 2 ab) = 1 / 10"
    unfolding sc using kth_highest_sorted [OF so, of 301] by simp
qed

section \<open>RepVGG: fusing the branches\<close>

lemma bc_shape_rev_same: "bc_shape_rev xs xs = Inr xs"
  by (induction xs) (simp_all add: bind_err_def)

lemma broadcast_shapes_same: "broadcast_shapes s s = Inr s"
  by (simp add: broadcast_shapes_def bc_shape_rev_same bind_err_def)

lemma bc_shape_rev_Nil2: "bc_shape_rev xs [] = Inr xs"
  by (cases xs) simp_all

lemma broadcast_shapes_scalar: "broadcast_shapes s [] = Inr s"
  by (simp add: broadcast_shapes_def bc_shape_rev_Nil2 bind_err_def)

lemma np_binop_same:
  "shp a = shp b \<Longrightarrow>
     np_binop f a b = Inr \<lparr>shp = shp a,
        el = (\<lambda>idx. f (el a (bc_index (shp a) idx)) (el b (bc_index (shp a) idx)))\<rparr>"
  by (simp add: np_binop_def broadcast_shapes_same bind_err_def)

lemma np_binop_scalar:
  "np_binop f a (scalar v) = Inr \<lparr>shp = shp a, el = (\<lambda>idx. f (el a (bc_index (shp a) idx)) v)\<rparr>"
  by (simp add: np_binop_def broadcast_shapes_scalar bind_err_def scalar_def)

lemma broadcast_shapes_grouped:
  assumes "1 < g" "g < c" "c mod g = 0"
  shows "broadcast_shapes [c, c div g, 3, 3] [c, c, 3, 3] = Inl ValueError_broadcast"
proof -
  have "c div g < c" using assms by (intro div_less_dividend) simp_all
  then have "c div g \<noteq> c" by simp
  moreover have "c div g \<noteq> 1"
  proof
    assume "c div g = 1"
    then have "c = g" using assms(3) by (metis mod_div_mult_eq add_0 mult_1)
    with assms(2) show False by simp
  qed
  ultimately show ?thesis
    using assms by (simp add: broadcast_shapes_def bind_err_def)
qed

lemma bc_index_1: "i < c \<Longrightarrow> bc_index [c] [i] = [i]"
  by (auto simp: bc_index_def)

lemma bc_index_4:
  "a < s0 \<Longrightarrow> b < s1 \<Longrightarrow> c < s2 \<Longrightarrow> d < s3 \<Longrightarrow>
     bc_index [s0, s1, s2, s3] [a, b, c, d] = [a, b, c, d]"
  by (auto simp: bc_index_def)

lemma bc_index_scalar: "bc_index [] idx = []"
  by (simp add: bc_index_def)

lemma fuse_chain:
  fixes kernel mean var gamma beta :: ndarray and eps :: real
  assumes k: "shp kernel = [k0, k1, k2, k3]"
    and s: "shp gamma = [k0]" "shp beta = [k0]" "shp mean = [k0]" "shp var = [k0]"
  shows "\<exists>K B.
      bind_err (np_add var (scalar eps)) (\<lambda>v.
        let std = np_sqrt v
        in bind_err (np_div gamma std) (\<lambda>t0.
           let t1 = reshape_column t0
           in (case shp kernel of
                 [k0, k1, k2, k3] \<Rightarrow>
                   bind_err (np_tile t1 [1, k1, k2, k3]) (\<lambda>t.
                   bind_err (np_mul kernel t) (\<lambda>fused_kernel.
                   bind_err (np_mul mean gamma) (\<lambda>mg.
                   bind_err (np_div mg std) (\<lambda>mgs.
                   bind_err (np_sub beta mgs) (\<lambda>fused_bias.
                     Inr (fused_kernel, fused_bias))))))
               | _ \<Rightarrow> Inl IndexError))) = Inr (K, B)
      \<and> shp K = [k0, k1, k2, k3] \<and> shp B = [k0]
      \<and> (\<forall>a<k0. \<forall>b<k1. \<forall>c<k2. \<forall>d<k3.
            el K [a, b, c, d] = el kernel [a, b, c, d] * (el gamma [a] / sqrt (el var [a] + eps)))
      \<and> (\<forall>a<k0. el B [a] = el beta [a] - el mean [a] * el gamma [a] / sqrt (el var [a] + eps))"
proof -
  define v where "v = \<lparr>shp = [k0], el = (\<lambda>idx. el var (bc_index [k0] idx) + eps)\<rparr>"
  define std where "std = np_sqrt v"
  define t0 where "t0 = \<lparr>shp = [k0],
      el = (\<lambda>idx. el gamma (bc_index [k0] idx) / el std (bc_index [k0] idx))\<rparr>"
  define t1 where "t1 = reshape_column t0"
  define t where "t = \<lparr>shp = [k0, k1, k2, k3],
      el = (\<lambda>idx. el t1 (map2 (\<lambda>i d. i mod d) idx [k0, 1, 1, 1]))\<rparr>"
  define K where "K = \<lparr>shp = [k0, k1, k2, k3],
      el = (\<lambda>idx. el kernel (bc_index [k0, k1, k2, k3] idx) * el t (bc_index [k0, k1, k2, k3] idx))\<rparr>"
  define mg where "mg = \<lparr>shp = [k0],
      el = (\<lambda>idx. el mean (bc_index [k0] idx) * el gamma (bc_index [k0] idx))\<rparr>"
  define mgs where "mgs = \<lparr>shp = [k0],
      el = (\<lambda>idx. el mg (bc_index [k0] idx) / el std (bc_index [k0] idx))\<rparr>"
  define B where "B = \<lparr>shp = [k0],
      el = (\<lambda>idx. el beta (bc_index [k0] idx) - el mgs (bc_index [k0] idx))\<rparr>"
  have e1: "np_add var (scalar eps) = Inr v"
    by (simp add: np_add_def np_binop_scalar s v_def)
  have sstd: "shp std = [k0]" by (simp add: std_def np_sqrt_def v_def)
  have e2: "np_div gamma std = Inr t0"
    using np_binop_same [of gamma std "(/)"] by (simp add: np_div_def s sstd t0_def)
  have st1: "shp t1 = [k0, 1, 1, 1]" by (simp add: t1_def reshape_column_def t0_def)
  have e3: "np_tile t1 [1, k1, k2, k3] = Inr t"
    by (simp add: np_tile_def st1 t_def)
  have e4: "np_mul kernel t = Inr K"
    using np_binop_same [of kernel t "(*)"] by (simp add: np_mul_def k t_def K_def)
  have e5: "np_mul mean gamma = Inr mg"
    using np_binop_same [of mean gamma "(*)"] by (simp add: np_mul_def s mg_def)
  have e6: "np_div mg std = Inr mgs"
    using np_binop_same [of mg std "(/)"] by (simp add: np_div_def sstd mg_def mgs_def)
  have e7: "np_sub beta mgs = Inr B"
    using np_binop_same [of beta mgs "(-)"] by (simp add: np_sub_def s mgs_def B_def)
  have run: "bind_err (np_add var (scalar eps)) (\<lambda>v.
        let std = np_sqrt v
        in bind_err (np_div gamma std) (\<lambda>t0.
           let t1 = reshape_column t0
           in (case shp kernel of
                 [k0, k1, k2, k3] \<Rightarrow>
                   bind_err (np_tile t1 [1, k1, k2, k3]) (\<lambda>t.
                   bind_err (np_mul kernel t) (\<lambda>fused_kernel.
                   bind_err (np_mul mean gamma) (\<lambda>mg.
                   bind_err (np_div mg std) (\<lambda>mgs.
                   bind_err (np_sub beta mgs) (\<lambda>fused_bias.
                     Inr (fused_kernel, fused_bias))))))
               | _ \<Rightarrow> Inl IndexError))) = Inr (K, B)"
    unfolding e1 bind_err_def Let_def sum.case std_def [symmetric] e2 t1_def [symmetric] k list.case
      e3 e4 e5 e6 e7 by (rule refl)
  have elstd: "el std [a] = sqrt (el var [a] + eps)" if "a < k0" for a
    using that by (simp add: std_def np_sqrt_def v_def bc_index_1)
  have elt: "el t [a, b, c, d] = el gamma [a] / sqrt (el var [a] + eps)"
    if "a < k0" "b < k1" "c < k2" "d < k3" for a b c d
    using that elstd [OF that(1)]
    by (simp add: t_def t1_def reshape_column_def t0_def bc_index_1)
  have elK: "el K [a, b, c, d] = el kernel [a, b, c, d] * (el gamma [a] / sqrt (el var [a] + eps))"
    if "a < k0" "b < k1" "c < k2" "d < k3" for a b c d
    using that elt [OF that] by (simp add: K_def bc_index_4)
  have elB: "el B [a] = el beta [a] - el mean [a] * el gamma [a] / sqrt (el var [a] + eps)"
    if "a < k0" for a
    using that elstd [OF that] by (simp add: B_def mgs_def mg_def bc_index_1)
  show ?thesis
    using run elK elB by (intro exI [of _ K] exI [of _ B]) (simp add: K_def B_def)
qed

lemma identity_kernel_spec:
  "shp (identity_kernel n) = [n, n, 3, 3]
   \<and> el (identity_kernel n) idx = (if \<exists>i<n. idx = [i, i, 1, 1] then 1 else 0)"
proof -
  have "shp (fold (\<lambda>i k. k\<lparr>el := (el k)([i, i, 1, 1] := 1)\<rparr>) [0..<m] z) = shp z
      \<and> el (fold (\<lambda>i k. k\<lparr>el := (el k)([i, i, 1, 1] := 1)\<rparr>) [0..<m] z) idx
          = (if \<exists>i<m. idx = [i, i, 1, 1] then 1 else el z idx)" for m and z :: ndarray
  proof (induction m)
    case 0
    then show ?case by simp
  next
    case (Suc m)
    then show ?case by (auto simp: less_Suc_eq)
  qed
  then show ?thesis by (simp add: identity_kernel_def np_zeros_def)
qed

lemma identity_kernel_el:
  "a < n \<Longrightarrow> b < n \<Longrightarrow>
     el (identity_kernel n) [a, b, c, d] = (if a = b \<and> c = 1 \<and> d = 1 then 1 else 0)"
  using identity_kernel_spec [of n "[a, b, c, d]"] by auto

lemma bn_shaped_shapes:
  "bn_shaped c b \<Longrightarrow> shp (bn_weight b) = [c] \<and> shp (bn_bias b) = [c]
     \<and> shp (running_mean b) = [c] \<and> shp (running_var b) = [c]"
  by (simp add: bn_shaped_def)

lemma fuse_bn_Sequential:
  assumes "shp (cv_weight (conv sq)) = [k0, k1, k2, k3]" "bn_shaped k0 (bn sq)"
  obtains K B where "fuse_bn self (Some (Sequential sq)) = Inr (K, B)"
    and "shp K = [k0, k1, k2, k3]" and "shp B = [k0]"
    and "\<And>a b c d. a < k0 \<Longrightarrow> b < k1 \<Longrightarrow> c < k2 \<Longrightarrow> d < k3 \<Longrightarrow>
            el K [a, b, c, d] = el (cv_weight (conv sq)) [a, b, c, d] * bn_scale (bn sq) a"
    and "\<And>a. a < k0 \<Longrightarrow> el B [a] = bn_shift (bn sq) a"
proof -
  have "\<exists>K B. fuse_bn self (Some (Sequential sq)) = Inr (K, B)
      \<and> shp K = [k0, k1, k2, k3] \<and> shp B = [k0]
      \<and> (\<forall>a<k0. \<forall>b<k1. \<forall>c<k2. \<forall>d<k3.
            el K [a, b, c, d] = el (cv_weight (conv sq)) [a, b, c, d] * bn_scale (bn sq) a)
      \<and> (\<forall>a<k0. el B [a] = bn_shift (bn sq) a)"
    using fuse_chain [OF assms(1), of "bn_weight (bn sq)" "bn_bias (bn sq)" "running_mean (bn sq)"
        "running_var (bn sq)" "bn_eps (bn sq)"] bn_shaped_shapes [OF assms(2)]
    unfolding fuse_bn_def bn_scale_def bn_shift_def by simp
  then obtain K B where "fuse_bn self (Some (Sequential sq)) = Inr (K, B)"
      "shp K = [k0, k1, k2, k3]" "shp B = [k0]"
      "\<forall>a<k0. \<forall>b<k1. \<forall>c<k2. \<forall>d<k3.
            el K [a, b, c, d] = el (cv_weight (conv sq)) [a, b, c, d] * bn_scale (bn sq) a"
      "\<forall>a<k0. el B [a] = bn_shift (bn sq) a"
    by (elim exE conjE)
  then show ?thesis by (intro that [of K B]) simp_all
qed

lemma fuse_bn_BatchNorm2d:
  assumes "in_channels self = n" "bn_shaped n nb"
  obtains K B where "fuse_bn self (Some (BatchNorm2d nb)) = Inr (K, B)"
    and "shp K = [n, n, 3, 3]" and "shp B = [n]"
    and "\<And>a b c d. a < n \<Longrightarrow> b < n \<Longrightarrow> c < 3 \<Longrightarrow> d < 3 \<Longrightarrow>
            el K [a, b, c, d] = (if a = b \<and> c = 1 \<and> d = 1 then 1 else 0) * bn_scale nb a"
    and "\<And>a. a < n \<Longrightarrow> el B [a] = bn_shift nb a"
proof -
  have k: "shp (identity_kernel n) = [n, n, 3, 3]" using identity_kernel_spec by blast
  have "\<exists>K B. fuse_bn self (Some (BatchNorm2d nb)) = Inr (K, B)
      \<and> shp K = [n, n, 3, 3] \<and> shp B = [n]
      \<and> (\<forall>a<n. \<forall>b<n. \<forall>c<3. \<forall>d<3.
            el K [a, b, c, d] = (if a = b \<and> c = 1 \<and> d = 1 then 1 else 0) * bn_scale nb a)
      \<and> (\<forall>a<n. el B [a] = bn_shift nb a)"
    using fuse_chain [OF k, of "bn_weight nb" "bn_bias nb" "running_mean nb" "running_var nb" "bn_eps nb"]
      bn_shaped_shapes [OF assms(2)]
    unfolding fuse_bn_def bn_scale_def bn_shift_def by (simp add: assms(1) identity_kernel_el)
  then obtain K B where "fuse_bn self (Some (BatchNorm2d nb)) = Inr (K, B)"
      "shp K = [n, n, 3, 3]" "shp B = [n]"
      "\<forall>a<n. \<forall>b<n. \<forall>c<3. \<forall>d<3.
            el K [a, b, c, d] = (if a = b \<and> c = 1 \<and> d = 1 then 1 else 0) * bn_scale nb a"
      "\<forall>a<n. el B [a] = bn_shift nb a"
    by (elim exE conjE)
  then show ?thesis by (intro that [of K B]) simp_all
qed

lemma pad_spec:
  assumes "shp k = [co, ci, 1, 1]"
  obtains p where "pad_1x1_to_3x3 (Some k) = Inr p" and "shp p = [co, ci, 3, 3]"
    and "\<And>a b c d. el p [a, b, c, d] = (if c = 1 \<and> d = 1 then el k [a, b, 0, 0] else 0)"
  by (simp add: pad_1x1_to_3x3_def assms)

lemma block_shapedD:
  assumes "block_shaped cin cout strd grps self"
  shows "0 < grps" "cin mod grps = 0" "cout mod grps = 0"
    "groups self = grps" "in_channels self = cin"
    "shp (cv_weight (conv (rbr_dense self))) = [cout, cin div grps, 3, 3]"
    "cv_bias (conv (rbr_dense self)) = None"
    "cv_stride (conv (rbr_dense self)) = strd" "cv_padding (conv (rbr_dense self)) = 1"
    "cv_groups (conv (rbr_dense self)) = grps"
    "bn_shaped cout (bn (rbr_dense self))"
    "shp (cv_weight (conv (rbr_1x1 self))) = [cout, cin div grps, 1, 1]"
    "cv_bias (conv (rbr_1x1 self)) = None"
    "cv_stride (conv (rbr_1x1 self)) = strd" "cv_padding (conv (rbr_1x1 self)) = 0"
    "cv_groups (conv (rbr_1x1 self)) = grps"
    "bn_shaped cout (bn (rbr_1x1 self))"
    "rbr_identity self = None \<Longrightarrow> \<not> (cout = cin \<and> strd = 1)"
    "\<And>idn. rbr_identity self = Some idn \<Longrightarrow> cout = cin \<and> strd = 1 \<and> bn_shaped cin idn"
  using assms unfolding block_shaped_def by (simp_all split: option.splits)

lemma np_binop_shp_Nil:
  "shp b = [] \<Longrightarrow>
     np_binop f a b = Inr \<lparr>shp = shp a, el = (\<lambda>idx. f (el a (bc_index (shp a) idx)) (el b []))\<rparr>"
  by (simp add: np_binop_def broadcast_shapes_scalar bind_err_def bc_index_scalar)

lemma fused_branches:
  assumes bs: "block_shaped cin cout strd grps self"
  obtains k3 b3 k1 b1 p k2 b2 where
    "fuse_bn self (Some (Sequential (rbr_dense self))) = Inr (k3, b3)"
    and "fuse_bn self (Some (Sequential (rbr_1x1 self))) = Inr (k1, b1)"
    and "pad_1x1_to_3x3 (Some k1) = Inr p"
    and "np_add k3 p = Inr k2" and "np_add b3 b1 = Inr b2"
    and "shp k2 = [cout, cin div grps, 3, 3]" and "shp b2 = [cout]"
    and "\<And>a b c d. a < cout \<Longrightarrow> b < cin div grps \<Longrightarrow> c < 3 \<Longrightarrow> d < 3 \<Longrightarrow>
            el k2 [a, b, c, d]
              = el (cv_weight (conv (rbr_dense self))) [a, b, c, d] * bn_scale (bn (rbr_dense self)) a
                + (if c = 1 \<and> d = 1
                   then el (cv_weight (conv (rbr_1x1 self))) [a, b, 0, 0] * bn_scale (bn (rbr_1x1 self)) a
                   else 0)"
    and "\<And>a. a < cout \<Longrightarrow>
            el b2 [a] = bn_shift (bn (rbr_dense self)) a + bn_shift (bn (rbr_1x1 self)) a"
proof -
  note d = block_shapedD [OF bs]
  from fuse_bn_Sequential [OF d(6) d(11), of self]
  obtain k3 b3 where f3: "fuse_bn self (Some (Sequential (rbr_dense self))) = Inr (k3, b3)"
    and s3: "shp k3 = [cout, cin div grps, 3, 3]" "shp b3 = [cout]"
    and e3: "\<And>a b c d. a < cout \<Longrightarrow> b < cin div grps \<Longrightarrow> c < 3 \<Longrightarrow> d < 3 \<Longrightarrow>
               el k3 [a, b, c, d]
                 = el (cv_weight (conv (rbr_dense self))) [a, b, c, d] * bn_scale (bn (rbr_dense self)) a"
    and eb3: "\<And>a. a < cout \<Longrightarrow> el b3 [a] = bn_shift (bn (rbr_dense self)) a"
    by metis
  from fuse_bn_Sequential [OF d(12) d(17), of self]
  obtain k1 b1 where f1: "fuse_bn self (Some (Sequential (rbr_1x1 self))) = Inr (k1, b1)"
    and s1: "shp k1 = [cout, cin div grps, 1, 1]" "shp b1 = [cout]"
    and q1: "\<And>a b c d. a < cout \<Longrightarrow> b < cin div grps \<Longrightarrow> c < 1 \<Longrightarrow> d < 1 \<Longrightarrow>
               el k1 [a, b, c, d]
                 = el (cv_weight (conv (rbr_1x1 self))) [a, b, c, d] * bn_scale (bn (rbr_1x1 self)) a"
    and eb1: "\<And>a. a < cout \<Longrightarrow> el b1 [a] = bn_shift (bn (rbr_1x1 self)) a"
    by metis
  have e1: "el k1 [a, b, 0, 0]
              = el (cv_weight (conv (rbr_1x1 self))) [a, b, 0, 0] * bn_scale (bn (rbr_1x1 self)) a"
    if "a < cout" "b < cin div grps" for a b
    using q1 [OF that, of 0 0] by simp
  from pad_spec [OF s1(1)]
  obtain p where pp: "pad_1x1_to_3x3 (Some k1) = Inr p" and sp: "shp p = [cout, cin div grps, 3, 3]"
    and ep: "\<And>a b c d. el p [a, b, c, d] = (if c = 1 \<and> d = 1 then el k1 [a, b, 0, 0] else 0)"
    by metis
  define k2 where "k2 = \<lparr>shp = shp k3,
      el = (\<lambda>idx. el k3 (bc_index (shp k3) idx) + el p (bc_index (shp k3) idx))\<rparr>"
  define b2 where "b2 = \<lparr>shp = shp b3,
      el = (\<lambda>idx. el b3 (bc_index (shp b3) idx) + el b1 (bc_index (shp b3) idx))\<rparr>"
  have a2: "np_add k3 p = Inr k2"
    unfolding np_add_def k2_def by (rule np_binop_same) (simp add: s3 sp)
  have ab2: "np_add b3 b1 = Inr b2"
    unfolding np_add_def b2_def by (rule np_binop_same) (simp add: s3 s1)
  have ek2: "el k2 [a, b, c, d]
              = el (cv_weight (conv (rbr_dense self))) [a, b, c, d] * bn_scale (bn (rbr_dense self)) a
                + (if c = 1 \<and> d = 1
                   then el (cv_weight (conv (rbr_1x1 self))) [a, b, 0, 0] * bn_scale (bn (rbr_1x1 self)) a
                   else 0)"
    if "a < cout" "b < cin div grps" "c < 3" "d < 3" for a b c d
  proof -
    have "el k2 [a, b, c, d] = el k3 [a, b, c, d] + el p [a, b, c, d]"
      using that by (simp add: k2_def s3 bc_index_4)
    then show ?thesis
      unfolding e3 [OF that] ep using e1 [OF that(1,2)] by simp
  qed
  have eb2: "el b2 [a] = bn_shift (bn (rbr_dense self)) a + bn_shift (bn (rbr_1x1 self)) a"
    if "a < cout" for a
    using that eb3 [OF that] eb1 [OF that] by (simp add: b2_def s3 bc_index_1)
  have sk2: "shp k2 = [cout, cin div grps, 3, 3]" "shp b2 = [cout]"
    by (simp_all add: k2_def b2_def s3)
  show ?thesis
    by (rule that [OF f3 f1 pp a2 ab2 sk2 ek2 eb2])
qed

lemma repvgg_convert_unfold:
  assumes "fuse_bn self (Some (Sequential (rbr_dense self))) = Inr (k3, b3)"
    and "fuse_bn self (Some (Sequential (rbr_1x1 self))) = Inr (k1, b1)"
    and "fuse_bn self (map_option BatchNorm2d (rbr_identity self)) = Inr (kid, bid)"
    and "pad_1x1_to_3x3 (Some k1) = Inr p"
    and "np_add k3 p = Inr k2"
    and "np_add b3 b1 = Inr b2"
  shows "repvgg_convert self =
           bind_err (np_add k2 kid) (\<lambda>kernel.
           bind_err (np_add b2 bid) (\<lambda>bias. Inr (kernel, bias)))"
  by (simp add: repvgg_convert_def assms bind_err_def split: sum.splits)

lemma new_BatchNorm2d_shaped: "bn_shaped c (new_BatchNorm2d c)"
  by (simp add: bn_shaped_def new_BatchNorm2d_def np_zeros_def list_all_iff)

lemma RepVGGBlock_init_train:
  assumes "RepVGGBlock_init cin cout ks strd pad grps False init3 init1 = Inr blk"
  obtains self where "blk = Train self" and "block_shaped cin cout strd grps self"
    and "ks = 3" and "pad = 1"
    and "(rbr_identity self \<noteq> None) = (cout = cin \<and> strd = 1)"
proof -
  have k: "ks = 3" "pad = 1"
    using assms by (auto simp: RepVGGBlock_init_def split: if_splits)
  have g: "0 < grps" "cin mod grps = 0" "cout mod grps = 0"
    using assms k
    by (auto simp: RepVGGBlock_init_def conv_bn_def new_Conv2d_def bind_err_def Let_def
        split: if_splits)
  define self where "self = \<lparr>groups = grps, in_channels = cin,
      rbr_identity = (if cout = cin \<and> strd = 1 then Some (new_BatchNorm2d cin) else None),
      rbr_dense = \<lparr>conv = \<lparr>cv_weight = \<lparr>shp = [cout, cin div grps, 3, 3], el = init3\<rparr>,
                            cv_bias = None, cv_stride = strd, cv_padding = 1, cv_groups = grps\<rparr>,
                   bn = new_BatchNorm2d cout\<rparr>,
      rbr_1x1 = \<lparr>conv = \<lparr>cv_weight = \<lparr>shp = [cout, cin div grps, 1, 1], el = init1\<rparr>,
                          cv_bias = None, cv_stride = strd, cv_padding = 0, cv_groups = grps\<rparr>,
                 bn = new_BatchNorm2d cout\<rparr>\<rparr>"
  have b: "blk = Train self"
    using assms k g
    by (simp add: RepVGGBlock_init_def conv_bn_def new_Conv2d_def bind_err_def Let_def self_def)
  have s: "block_shaped cin cout strd grps self"
    using g by (simp add: block_shaped_def self_def new_BatchNorm2d_shaped)
  have i: "(rbr_identity self \<noteq> None) = (cout = cin \<and> strd = 1)"
    by (simp add: self_def)
  show ?thesis by (rule that [OF b s k i])
qed

lemma RepVGGBlock_init_ok:
  assumes "0 < grps" "cin mod grps = 0" "cout mod grps = 0"
  shows "\<exists>self. RepVGGBlock_init cin cout 3 strd 1 grps False init3 init1 = Inr (Train self)"
  using assms
  by (simp add: RepVGGBlock_init_def conv_bn_def new_Conv2d_def bind_err_def Let_def)

lemma conv2d_apply_spec:
  assumes "shp (cv_weight c) = [co, ci, kh, kw]" and "shp x = [n, ci * g, h, w]"
    and "cv_groups c = g" and "0 < g" and "cv_stride c = s" and "0 < s" and "cv_padding c = p"
    and "co mod g = 0" and "kh \<le> h + 2 * p" and "kw \<le> w + 2 * p"
  obtains y where "conv2d_apply c x = Inr y"
    and "shp y = [n, co, (h + 2 * p - kh) div s + 1, (w + 2 * p - kw) div s + 1]"
    and "\<And>i a yy xx. el y [i, a, yy, xx] = conv_el c x i a yy xx"
proof -
  define y where "y = \<lparr>shp = [n, co, (h + 2 * p - kh) div s + 1, (w + 2 * p - kw) div s + 1],
      el = (\<lambda>idx. conv_el c x (idx ! 0) (idx ! 1) (idx ! 2) (idx ! 3))\<rparr>"
  have "conv2d_apply c x = Inr y"
    using assms by (simp add: conv2d_apply_def y_def Let_def)
  then show ?thesis
    by (rule that) (simp_all add: y_def)
qed

lemma bn_affine:
  "(v - m) / s * g + b = v * (g / s) + (b - m * g / (s::real))"
  by (simp add: diff_divide_distrib algebra_simps)

lemma bn_apply_spec:
  assumes "shp x = [n, c, h, w]" and "bn_shaped c b"
  obtains y where "bn_apply b x = Inr y" and "shp y = [n, c, h, w]"
    and "\<And>i a yy xx. el y [i, a, yy, xx] = el x [i, a, yy, xx] * bn_scale b a + bn_shift b a"
proof -
  define y where "y = \<lparr>shp = shp x,
      el = (\<lambda>idx. (el x idx - el (running_mean b) [idx ! 1])
                     / sqrt (el (running_var b) [idx ! 1] + bn_eps b)
                     * el (bn_weight b) [idx ! 1]
                   + el (bn_bias b) [idx ! 1])\<rparr>"
  have "bn_apply b x = Inr y"
    using assms by (simp add: bn_apply_def y_def bn_shaped_def)
  moreover have "shp y = [n, c, h, w]" by (simp add: y_def assms(1))
  moreover have "el y [i, a, yy, xx] = el x [i, a, yy, xx] * bn_scale b a + bn_shift b a"
    for i a yy xx
    unfolding bn_scale_def bn_shift_def bn_affine [symmetric] by (simp add: y_def)
  ultimately show ?thesis by (rule that)
qed

lemma branch_outputs:
  assumes bs: "block_shaped cin cout strd grps self"
    and x: "shp x = [n, cin, h, w]" and pos: "0 < h" "0 < w" "0 < strd"
  obtains d e where
    "conv_bn_apply (rbr_dense self) x = Inr d"
    and "conv_bn_apply (rbr_1x1 self) x = Inr e"
    and "shp d = [n, cout, (h - 1) div strd + 1, (w - 1) div strd + 1]"
    and "shp e = [n, cout, (h - 1) div strd + 1, (w - 1) div strd + 1]"
    and "\<And>i a yy xx. el d [i, a, yy, xx] =
           conv_el (conv (rbr_dense self)) x i a yy xx * bn_scale (bn (rbr_dense self)) a
           + bn_shift (bn (rbr_dense self)) a"
    and "\<And>i a yy xx. el e [i, a, yy, xx] =
           conv_el (conv (rbr_1x1 self)) x i a yy xx * bn_scale (bn (rbr_1x1 self)) a
           + bn_shift (bn (rbr_1x1 self)) a"
proof -
  note b = block_shapedD [OF bs]
  have xs: "shp x = [n, cin div grps * grps, h, w]"
    using x b(2) by (simp add: mod_eq_0_iff_dvd)
  have le: "3 \<le> h + 2 * 1" "3 \<le> w + 2 * 1" "1 \<le> h + 2 * 0" "1 \<le> w + 2 * 0"
    using pos by simp_all
  have hw: "h + 2 * 1 - 3 = h - 1" "w + 2 * 1 - 3 = w - 1" "h + 2 * 0 - 1 = h - 1" "w + 2 * 0 - 1 = w - 1"
    using pos by simp_all
  obtain c3 where c3: "conv2d_apply (conv (rbr_dense self)) x = Inr c3"
    and s3: "shp c3 = [n, cout, (h + 2 * 1 - 3) div strd + 1, (w + 2 * 1 - 3) div strd + 1]"
    and e3: "\<And>i a yy xx. el c3 [i, a, yy, xx] = conv_el (conv (rbr_dense self)) x i a yy xx"
    using conv2d_apply_spec [OF b(6) xs b(10) b(1) b(8) pos(3) b(9) b(3) le(1,2)] by metis
  obtain c1 where c1: "conv2d_apply (conv (rbr_1x1 self)) x = Inr c1"
    and s1: "shp c1 = [n, cout, (h + 2 * 0 - 1) div strd + 1, (w + 2 * 0 - 1) div strd + 1]"
    and e1: "\<And>i a yy xx. el c1 [i, a, yy, xx] = conv_el (conv (rbr_1x1 self)) x i a yy xx"
    using conv2d_apply_spec [OF b(12) xs b(16) b(1) b(14) pos(3) b(15) b(3) le(3,4)] by metis
  obtain d where d: "bn_apply (bn (rbr_dense self)) c3 = Inr d"
    and sd: "shp d = [n, cout, (h + 2 * 1 - 3) div strd + 1, (w + 2 * 1 - 3) div strd + 1]"
    and ed: "\<And>i a yy xx. el d [i, a, yy, xx]
               = el c3 [i, a, yy, xx] * bn_scale (bn (rbr_dense self)) a + bn_shift (bn (rbr_dense self)) a"
    using bn_apply_spec [OF s3 b(11)] by metis
  obtain e where e: "bn_apply (bn (rbr_1x1 self)) c1 = Inr e"
    and se: "shp e = [n, cout, (h + 2 * 0 - 1) div strd + 1, (w + 2 * 0 - 1) div strd + 1]"
    and ee: "\<And>i a yy xx. el e [i, a, yy, xx]
               = el c1 [i, a, yy, xx] * bn_scale (bn (rbr_1x1 self)) a + bn_shift (bn (rbr_1x1 self)) a"
    using bn_apply_spec [OF s1 b(17)] by metis
  have "conv_bn_apply (rbr_dense self) x = Inr d"
    by (simp add: conv_bn_apply_def c3 d bind_err_def)
  moreover have "conv_bn_apply (rbr_1x1 self) x = Inr e"
    by (simp add: conv_bn_apply_def c1 e bind_err_def)
  ultimately show ?thesis
    using sd se ed ee unfolding e3 e1 hw by (rule that)
qed

lemma pre_activation_spec:
  assumes bs: "block_shaped cin cout strd grps self"
    and x: "shp x = [n, cin, h, w]" and pos: "0 < h" "0 < w" "0 < strd"
  obtains d e y where
    "conv_bn_apply (rbr_dense self) x = Inr d"
    and "conv_bn_apply (rbr_1x1 self) x = Inr e"
    and "pre_activation (Train self) x = Inr y"
    and "shp y = [n, cout, (h - 1) div strd + 1, (w - 1) div strd + 1]"
    and "\<And>i a yy xx. i < n \<Longrightarrow> a < cout \<Longrightarrow> yy < (h - 1) div strd + 1 \<Longrightarrow>
            xx < (w - 1) div strd + 1 \<Longrightarrow>
            el y [i, a, yy, xx] = el d [i, a, yy, xx] + el e [i, a, yy, xx]
              + id_out_el self x i a yy xx"
proof -
  note b = block_shapedD [OF bs]
  let ?s = "[n, cout, (h - 1) div strd + 1, (w - 1) div strd + 1]"
  obtain d e where d: "conv_bn_apply (rbr_dense self) x = Inr d"
    and e: "conv_bn_apply (rbr_1x1 self) x = Inr e"
    and sd: "shp d = ?s" and se: "shp e = ?s"
    by (rule branch_outputs [OF bs x pos])
  define s2 where "s2 = \<lparr>shp = shp d,
      el = (\<lambda>idx. el d (bc_index (shp d) idx) + el e (bc_index (shp d) idx))\<rparr>"
  have s2: "np_add d e = Inr s2"
    unfolding np_add_def s2_def by (rule np_binop_same) (simp add: sd se)
  have ss2: "shp s2 = ?s" by (simp add: s2_def sd)
  have es2: "el s2 [i, a, yy, xx] = el d [i, a, yy, xx] + el e [i, a, yy, xx]"
    if "i < n" "a < cout" "yy < (h - 1) div strd + 1" "xx < (w - 1) div strd + 1" for i a yy xx
    unfolding s2_def sd using bc_index_4 [OF that] by simp
  show ?thesis
  proof (cases "rbr_identity self")
    case None
    define y where "y = \<lparr>shp = shp s2,
        el = (\<lambda>idx. el s2 (bc_index (shp s2) idx) + el (scalar 0) [])\<rparr>"
    have y: "np_add s2 (scalar 0) = Inr y"
      unfolding np_add_def y_def by (rule np_binop_shp_Nil) (simp add: scalar_def)
    have sy: "shp y = ?s" by (simp add: y_def ss2)
    have p: "pre_activation (Train self) x = Inr y"
      by (simp add: pre_activation_def None d e s2 y bind_err_def)
    have ey: "el y [i, a, yy, xx] = el d [i, a, yy, xx] + el e [i, a, yy, xx]
              + id_out_el self x i a yy xx"
      if "i < n" "a < cout" "yy < (h - 1) div strd + 1" "xx < (w - 1) div strd + 1" for i a yy xx
    proof -
      have "el y [i, a, yy, xx] = el s2 [i, a, yy, xx] + 0"
        unfolding y_def ss2 using bc_index_4 [OF that] by (simp add: scalar_def)
      then show ?thesis unfolding es2 [OF that] by (simp add: id_out_el_def None)
    qed
    show ?thesis by (rule that [OF d e p sy ey])
  next
    case (Some idn)
    from b(19) [OF Some] have c: "cout = cin" "strd = 1" and bi: "bn_shaped cin idn" by simp_all
    have hw: "(h - 1) div 1 + 1 = h" "(w - 1) div 1 + 1 = w"
      using pos by simp_all
    obtain io where io: "bn_apply idn x = Inr io" and sio: "shp io = [n, cin, h, w]"
      and eio: "\<And>i a yy xx. el io [i, a, yy, xx] = el x [i, a, yy, xx] * bn_scale idn a + bn_shift idn a"
      using bn_apply_spec [OF x bi] by blast
    have eqs: "shp s2 = shp io"
      unfolding ss2 sio c hw by (rule refl)
    define y where "y = \<lparr>shp = shp s2,
        el = (\<lambda>idx. el s2 (bc_index (shp s2) idx) + el io (bc_index (shp s2) idx))\<rparr>"
    have y: "np_add s2 io = Inr y"
      unfolding np_add_def y_def by (rule np_binop_same) (rule eqs)
    have sy: "shp y = ?s" by (simp add: y_def ss2)
    have p: "pre_activation (Train self) x = Inr y"
      by (simp add: pre_activation_def Some io d e s2 y bind_err_def)
    have ey: "el y [i, a, yy, xx] = el d [i, a, yy, xx] + el e [i, a, yy, xx]
              + id_out_el self x i a yy xx"
      if "i < n" "a < cout" "yy < (h - 1) div strd + 1" "xx < (w - 1) div strd + 1" for i a yy xx
    proof -
      have "el y [i, a, yy, xx] = el s2 [i, a, yy, xx] + el io [i, a, yy, xx]"
        unfolding y_def ss2 using bc_index_4 [OF that] by simp
      then show ?thesis unfolding es2 [OF that] eio by (simp add: id_out_el_def Some)
    qed
    show ?thesis by (rule that [OF d e p sy ey])
  qed
qed

lemma repvgg_convert_spec:
  assumes bs: "block_shaped cin cout strd grps self"
    and ok: "grps = 1 \<or> rbr_identity self = None"
  obtains K B where "repvgg_convert self = Inr (K, B)"
    and "shp K = [cout, cin div grps, 3, 3]" and "shp B = [cout]"
    and "\<And>a b c d. a < cout \<Longrightarrow> b < cin div grps \<Longrightarrow> c < 3 \<Longrightarrow> d < 3 \<Longrightarrow>
            el K [a, b, c, d] = fused_kernel_el self a b c d"
    and "\<And>a. a < cout \<Longrightarrow>
            el B [a] = fused_bias_el self a"
proof -
  note b = block_shapedD [OF bs]
  let ?sk = "[cout, cin div grps, 3, 3]"
  obtain k3 b3 k1 b1 p k2 b2 where
    f: "fuse_bn self (Some (Sequential (rbr_dense self))) = Inr (k3, b3)"
      "fuse_bn self (Some (Sequential (rbr_1x1 self))) = Inr (k1, b1)"
      "pad_1x1_to_3x3 (Some k1) = Inr p"
      "np_add k3 p = Inr k2" "np_add b3 b1 = Inr b2"
    and s2: "shp k2 = ?sk" "shp b2 = [cout]"
    and e2: "\<And>a b c d. a < cout \<Longrightarrow> b < cin div grps \<Longrightarrow> c < 3 \<Longrightarrow> d < 3 \<Longrightarrow>
            el k2 [a, b, c, d]
              = el (cv_weight (conv (rbr_dense self))) [a, b, c, d] * bn_scale (bn (rbr_dense self)) a
                + (if c = 1 \<and> d = 1
                   then el (cv_weight (conv (rbr_1x1 self))) [a, b, 0, 0] * bn_scale (bn (rbr_1x1 self)) a
                   else 0)"
    and eb2: "\<And>a. a < cout \<Longrightarrow>
            el b2 [a] = bn_shift (bn (rbr_dense self)) a + bn_shift (bn (rbr_1x1 self)) a"
    using fused_branches [OF bs] by blast
  show ?thesis
  proof (cases "rbr_identity self")
    case None
    have fi: "fuse_bn self (map_option BatchNorm2d (rbr_identity self)) = Inr (scalar 0, scalar 0)"
      by (simp add: None fuse_bn_def)
    define K where "K = \<lparr>shp = shp k2,
        el = (\<lambda>idx. el k2 (bc_index (shp k2) idx) + el (scalar 0) [])\<rparr>"
    define B where "B = \<lparr>shp = shp b2,
        el = (\<lambda>idx. el b2 (bc_index (shp b2) idx) + el (scalar 0) [])\<rparr>"
    have aK: "np_add k2 (scalar 0) = Inr K"
      unfolding np_add_def K_def by (rule np_binop_shp_Nil) (simp add: scalar_def)
    have aB: "np_add b2 (scalar 0) = Inr B"
      unfolding np_add_def B_def by (rule np_binop_shp_Nil) (simp add: scalar_def)
    have r: "repvgg_convert self = Inr (K, B)"
      unfolding repvgg_convert_unfold [OF f(1,2) fi f(3,4,5)] by (simp add: aK aB bind_err_def)
    have sK: "shp K = ?sk" "shp B = [cout]" by (simp_all add: K_def B_def s2)
    have eK: "el K [a, b, c, d] = fused_kernel_el self a b c d"
      if "a < cout" "b < cin div grps" "c < 3" "d < 3" for a b c d
    proof -
      have "el K [a, b, c, d] = el k2 [a, b, c, d] + 0"
        unfolding K_def s2 using bc_index_4 [OF that] by (simp add: scalar_def)
      then show ?thesis unfolding e2 [OF that] by (simp add: fused_kernel_el_def None)
    qed
    have eB: "el B [a] = fused_bias_el self a"
      if "a < cout" for a
    proof -
      have "el B [a] = el b2 [a] + 0"
        unfolding B_def s2 using bc_index_1 [OF that] by (simp add: scalar_def)
      then show ?thesis unfolding eb2 [OF that] by (simp add: fused_bias_el_def None)
    qed
    show ?thesis by (rule that [OF r sK eK eB])
  next
    case (Some idn)
    with ok have g1: "grps = 1" by simp
    from b(19) [OF Some] have c: "cout = cin" and bi: "bn_shaped cin idn" by simp_all
    obtain kid bid where fi0: "fuse_bn self (Some (BatchNorm2d idn)) = Inr (kid, bid)"
      and si: "shp kid = [cin, cin, 3, 3]" "shp bid = [cin]"
      and ei: "\<And>a b c d. a < cin \<Longrightarrow> b < cin \<Longrightarrow> c < 3 \<Longrightarrow> d < 3 \<Longrightarrow>
            el kid [a, b, c, d] = (if a = b \<and> c = 1 \<and> d = 1 then 1 else 0) * bn_scale idn a"
      and ebi: "\<And>a. a < cin \<Longrightarrow> el bid [a] = bn_shift idn a"
      using fuse_bn_BatchNorm2d [OF b(5) bi] by blast
    have fi: "fuse_bn self (map_option BatchNorm2d (rbr_identity self)) = Inr (kid, bid)"
      using fi0 Some by simp
    have sk: "?sk = [cin, cin, 3, 3]" by (simp add: g1 c)
    define K where "K = \<lparr>shp = shp k2,
        el = (\<lambda>idx. el k2 (bc_index (shp k2) idx) + el kid (bc_index (shp k2) idx))\<rparr>"
    define B where "B = \<lparr>shp = shp b2,
        el = (\<lambda>idx. el b2 (bc_index (shp b2) idx) + el bid (bc_index (shp b2) idx))\<rparr>"
    have aK: "np_add k2 kid = Inr K"
      unfolding np_add_def K_def by (rule np_binop_same) (simp add: s2 si sk)
    have aB: "np_add b2 bid = Inr B"
      unfolding np_add_def B_def by (rule np_binop_same) (simp add: s2 si c)
    have r: "repvgg_convert self = Inr (K, B)"
      unfolding repvgg_convert_unfold [OF f(1,2) fi f(3,4,5)] by (simp add: aK aB bind_err_def)
    have sK: "shp K = ?sk" "shp B = [cout]" by (simp_all add: K_def B_def s2)
    have eK: "el K [a, b, c, d] = fused_kernel_el self a b c d"
      if "a < cout" "b < cin div grps" "c < 3" "d < 3" for a b c d
    proof -
      have ab: "a < cin" "b < cin" using that c g1 by simp_all
      have "el K [a, b, c, d] = el k2 [a, b, c, d] + el kid [a, b, c, d]"
        unfolding K_def s2 using bc_index_4 [OF that] by simp
      then show ?thesis unfolding e2 [OF that] ei [OF ab that(3,4)] by (simp add: fused_kernel_el_def Some)
    qed
    have eB: "el B [a] = fused_bias_el self a"
      if "a < cout" for a
    proof -
      have a': "a < cin" using that c by simp
      have "el B [a] = el b2 [a] + el bid [a]"
        unfolding B_def s2 using bc_index_1 [OF that] by simp
      then show ?thesis unfolding eb2 [OF that] ebi [OF a'] by (simp add: fused_bias_el_def Some)
    qed
    show ?thesis by (rule that [OF r sK eK eB])
  qed
qed

lemma sum_3: "(\<Sum>k<(3::nat). f k) = f 0 + f 1 + (f 2 :: real)"
  by (simp add: numeral_3_eq_3 lessThan_Suc numeral_2_eq_2)

lemma fused_sum:
  fixes w3 :: "nat \<Rightarrow> nat \<Rightarrow> nat \<Rightarrow> real" and w1 :: "nat \<Rightarrow> real"
    and P :: "nat \<Rightarrow> nat \<Rightarrow> nat \<Rightarrow> real"
  shows "(\<Sum>j<m. \<Sum>ky<3. \<Sum>kx<3.
            (w3 j ky kx * s3 + (if ky = 1 \<and> kx = 1 then w1 j * s1 else 0)
             + (if a = j \<and> ky = 1 \<and> kx = 1 then 1 else 0) * t) * P j ky kx)
         = (\<Sum>j<m. \<Sum>ky<3. \<Sum>kx<3. w3 j ky kx * P j ky kx) * s3
           + (\<Sum>j<m. w1 j * P j 1 1) * s1
           + (if a < m then t * P a 1 1 else 0)"
proof -
  have "(\<Sum>j<m. \<Sum>ky<3. \<Sum>kx<3.
            (w3 j ky kx * s3 + (if ky = 1 \<and> kx = 1 then w1 j * s1 else 0)
             + (if a = j \<and> ky = 1 \<and> kx = 1 then 1 else 0) * t) * P j ky kx)
      = (\<Sum>j<m. (\<Sum>ky<3. \<Sum>kx<3. w3 j ky kx * P j ky kx) * s3
                  + (w1 j * P j 1 1) * s1
                  + (if a = j then t * P a 1 1 else 0))"
    by (rule sum.cong [OF refl]) (simp add: sum_3 algebra_simps)
  also have "\<dots> = (\<Sum>j<m. (\<Sum>ky<3. \<Sum>kx<3. w3 j ky kx * P j ky kx) * s3)
                  + (\<Sum>j<m. (w1 j * P j 1 1) * s1)
                  + (\<Sum>j<m. if a = j then t * P a 1 1 else 0)"
    by (simp add: sum.distrib)
  also have "(\<Sum>j<m. if a = j then t * P a 1 1 else 0) = (if a < m then t * P a 1 1 else 0)"
    by simp
  finally show ?thesis by (simp add: sum_distrib_right)
qed

lemma padded_centre:
  "padded x 1 i c (yy * s + 1) (xx * s + 1) = padded x 0 i c (yy * s) (xx * s)"
  by (simp add: padded_def)

lemma padded_0:
  "shp x = [n, c0, h, w] \<Longrightarrow> yy < h \<Longrightarrow> xx < w \<Longrightarrow> padded x 0 i c yy xx = el x [i, c, yy, xx]"
  by (simp add: padded_def)

text \<open>
  The rest of C1 holds in exact arithmetic: for a block without groups, or without
  an identity branch, \<^verbatim>\<open>repvgg_convert\<close> returns a kernel and a bias, and the single
  \<open>3x3\<close> convolution with that kernel and bias, the stride and the groups of the
  block and padding 1 has, on every input batch, the output that the three
  branches of the training form sum to before the activation.
\<close>

lemma repvgg_equivalence:
  assumes bs: "block_shaped cin cout strd grps self"
    and ok: "grps = 1 \<or> rbr_identity self = None"
    and x: "shp x = [n, cin, h, w]" and pos: "0 < h" "0 < w" "0 < strd"
  shows "\<exists>K B y z. repvgg_convert self = Inr (K, B)
           \<and> pre_activation (Train self) x = Inr y
           \<and> pre_activation (Deploy (rbr_reparam_of self (K, B))) x = Inr z
           \<and> shp y = [n, cout, (h - 1) div strd + 1, (w - 1) div strd + 1]
           \<and> shp z = shp y
           \<and> (\<forall>i<n. \<forall>a<cout. \<forall>yy<(h - 1) div strd + 1. \<forall>xx<(w - 1) div strd + 1.
                 el z [i, a, yy, xx] = el y [i, a, yy, xx])"
proof -
  note b = block_shapedD [OF bs]
  let ?m = "cin div grps"
  let ?Ho = "(h - 1) div strd + 1" and ?Wo = "(w - 1) div strd + 1"
  let ?W3 = "cv_weight (conv (rbr_dense self))" and ?W1 = "cv_weight (conv (rbr_1x1 self))"
  let ?sc3 = "bn_scale (bn (rbr_dense self))" and ?sc1 = "bn_scale (bn (rbr_1x1 self))"
  let ?sh3 = "bn_shift (bn (rbr_dense self))" and ?sh1 = "bn_shift (bn (rbr_1x1 self))"
  define P where "P i a yy xx j ky kx
      = padded x 1 i ((a div (cout div grps)) * ?m + j) (yy * strd + ky) (xx * strd + kx)"
    for i a yy xx j ky kx
  obtain K B where cv: "repvgg_convert self = Inr (K, B)"
    and sK: "shp K = [cout, ?m, 3, 3]"
    and eK: "\<And>a b c d. a < cout \<Longrightarrow> b < ?m \<Longrightarrow> c < 3 \<Longrightarrow> d < 3 \<Longrightarrow>
            el K [a, b, c, d] = fused_kernel_el self a b c d"
    and eB: "\<And>a. a < cout \<Longrightarrow> el B [a] = fused_bias_el self a"
    using repvgg_convert_spec [OF bs ok] by metis
  obtain d e where d: "conv_bn_apply (rbr_dense self) x = Inr d"
    and e: "conv_bn_apply (rbr_1x1 self) x = Inr e"
    and ed0: "\<And>i a yy xx. el d [i, a, yy, xx] =
           conv_el (conv (rbr_dense self)) x i a yy xx * ?sc3 a + ?sh3 a"
    and ee0: "\<And>i a yy xx. el e [i, a, yy, xx] =
           conv_el (conv (rbr_1x1 self)) x i a yy xx * ?sc1 a + ?sh1 a"
    using branch_outputs [OF bs x pos] by metis
  have ed: "el d [i, a, yy, xx] =
           (\<Sum>j<?m. \<Sum>ky<3. \<Sum>kx<3. el ?W3 [a, j, ky, kx] * P i a yy xx j ky kx) * ?sc3 a + ?sh3 a"
    for i a yy xx
    unfolding ed0 conv_el_def P_def by (simp add: b)
  have ee: "el e [i, a, yy, xx] =
           (\<Sum>j<?m. el ?W1 [a, j, 0, 0]
              * padded x 0 i ((a div (cout div grps)) * ?m + j) (yy * strd) (xx * strd))
           * ?sc1 a + ?sh1 a"
    for i a yy xx
    unfolding ee0 conv_el_def by (simp add: b)
  obtain d' e' y where d': "conv_bn_apply (rbr_dense self) x = Inr d'"
    and e': "conv_bn_apply (rbr_1x1 self) x = Inr e'"
    and py: "pre_activation (Train self) x = Inr y"
    and sy: "shp y = [n, cout, ?Ho, ?Wo]"
    and ey: "\<And>i a yy xx. i < n \<Longrightarrow> a < cout \<Longrightarrow> yy < ?Ho \<Longrightarrow> xx < ?Wo \<Longrightarrow>
            el y [i, a, yy, xx] = el d' [i, a, yy, xx] + el e' [i, a, yy, xx]
              + id_out_el self x i a yy xx"
    using pre_activation_spec [OF bs x pos] by metis
  have dd: "d' = d" "e' = e" using d d' e e' by simp_all
  let ?c = "rbr_reparam_of self (K, B)"
  have xs: "shp x = [n, ?m * grps, h, w]"
    using x b(2) by (simp add: mod_eq_0_iff_dvd)
  have cw: "shp (cv_weight ?c) = [cout, ?m, 3, 3]" "cv_groups ?c = grps" "cv_stride ?c = strd"
    "cv_padding ?c = 1" "cv_bias ?c = Some B"
    by (simp_all add: rbr_reparam_of_def sK b)
  have le: "3 \<le> h + 2 * 1" "3 \<le> w + 2 * 1" using pos by simp_all
  have hw: "h + 2 * 1 - 3 = h - 1" "w + 2 * 1 - 3 = w - 1" using pos by simp_all
  obtain z where cz: "conv2d_apply ?c x = Inr z"
    and sz0: "shp z = [n, cout, (h + 2 * 1 - 3) div strd + 1, (w + 2 * 1 - 3) div strd + 1]"
    and ez0: "\<And>i a yy xx. el z [i, a, yy, xx] = conv_el ?c x i a yy xx"
    using conv2d_apply_spec [OF cw(1) xs cw(2) b(1) cw(3) pos(3) cw(4) b(3) le] by metis
  have sz: "shp z = [n, cout, ?Ho, ?Wo]" using sz0 unfolding hw .
  have ez: "el z [i, a, yy, xx] =
           el B [a] + (\<Sum>j<?m. \<Sum>ky<3. \<Sum>kx<3. el K [a, j, ky, kx] * P i a yy xx j ky kx)"
    for i a yy xx
  proof -
    have cwK: "cv_weight ?c = K" by (simp add: rbr_reparam_of_def)
    show ?thesis
      unfolding ez0 conv_el_def cw(2-5) cwK sK P_def by simp
  qed
  have pz: "pre_activation (Deploy ?c) x = Inr z"
    by (simp add: pre_activation_def cz)
  have eq: "el z [i, a, yy, xx] = el y [i, a, yy, xx]"
    if r: "i < n" "a < cout" "yy < ?Ho" "xx < ?Wo" for i a yy xx
  proof -
    define t where "t = (case rbr_identity self of None \<Rightarrow> 0 | Some idn \<Rightarrow> bn_scale idn a)"
    have kf: "el K [a, j, ky, kx]
        = el ?W3 [a, j, ky, kx] * ?sc3 a
          + (if ky = 1 \<and> kx = 1 then el ?W1 [a, j, 0, 0] * ?sc1 a else 0)
          + (if a = j \<and> ky = 1 \<and> kx = 1 then 1 else 0) * t"
      if "j < ?m" "ky < 3" "kx < 3" for j ky kx
      unfolding eK [OF r(2) that] t_def fused_kernel_el_def by (auto split: option.splits)
    have "(\<Sum>j<?m. \<Sum>ky<3. \<Sum>kx<3. el K [a, j, ky, kx] * P i a yy xx j ky kx)
        = (\<Sum>j<?m. \<Sum>ky<3. \<Sum>kx<3.
             (el ?W3 [a, j, ky, kx] * ?sc3 a
              + (if ky = 1 \<and> kx = 1 then el ?W1 [a, j, 0, 0] * ?sc1 a else 0)
              + (if a = j \<and> ky = 1 \<and> kx = 1 then 1 else 0) * t) * P i a yy xx j ky kx)"
      by (intro sum.cong refl) (simp add: kf)
    also have "\<dots> = (\<Sum>j<?m. \<Sum>ky<3. \<Sum>kx<3. el ?W3 [a, j, ky, kx] * P i a yy xx j ky kx) * ?sc3 a
           + (\<Sum>j<?m. el ?W1 [a, j, 0, 0] * P i a yy xx j 1 1) * ?sc1 a
           + (if a < ?m then t * P i a yy xx a 1 1 else 0)"
      by (rule fused_sum)
    finally have zsum: "el z [i, a, yy, xx]
        = el B [a]
          + ((\<Sum>j<?m. \<Sum>ky<3. \<Sum>kx<3. el ?W3 [a, j, ky, kx] * P i a yy xx j ky kx) * ?sc3 a
             + (\<Sum>j<?m. el ?W1 [a, j, 0, 0] * P i a yy xx j 1 1) * ?sc1 a
             + (if a < ?m then t * P i a yy xx a 1 1 else 0))"
      unfolding ez by simp
    have p11: "P i a yy xx j 1 1
        = padded x 0 i ((a div (cout div grps)) * ?m + j) (yy * strd) (xx * strd)" for j
      unfolding P_def by (rule padded_centre)
    have idt: "(if a < ?m then t * P i a yy xx a 1 1 else 0) + fused_bias_el self a
        = ?sh3 a + ?sh1 a + id_out_el self x i a yy xx"
    proof (cases "rbr_identity self")
      case None
      then show ?thesis by (simp add: t_def fused_bias_el_def id_out_el_def)
    next
      case (Some idn)
      with ok have g1: "grps = 1" by simp
      from b(19) [OF Some] have c: "cout = cin" "strd = 1" by simp_all
      have am: "a < ?m" using r(2) c g1 by simp
      have yx: "yy < h" "xx < w" using r(3,4) pos c by simp_all
      have "P i a yy xx a 1 1 = padded x 0 i a yy xx"
        unfolding p11 using r(2) c g1 by simp
      also have "\<dots> = el x [i, a, yy, xx]"
        by (rule padded_0 [OF x yx])
      finally show ?thesis
        using am Some by (simp add: t_def fused_bias_el_def id_out_el_def)
    qed
    have "el y [i, a, yy, xx] = el d [i, a, yy, xx] + el e [i, a, yy, xx] + id_out_el self x i a yy xx"
      using ey [OF r] dd by simp
    also have "\<dots> = (\<Sum>j<?m. \<Sum>ky<3. \<Sum>kx<3. el ?W3 [a, j, ky, kx] * P i a yy xx j ky kx) * ?sc3 a
           + (\<Sum>j<?m. el ?W1 [a, j, 0, 0] * P i a yy xx j 1 1) * ?sc1 a
           + (?sh3 a + ?sh1 a + id_out_el self x i a yy xx)"
      unfolding ed ee p11 by simp
    also have "\<dots> = el z [i, a, yy, xx]"
      unfolding zsum eB [OF r(2)] idt [symmetric] by simp
    finally show ?thesis by simp
  qed
  show ?thesis
    using cv py pz sy sz eq
    by (intro exI [of _ K] exI [of _ B] exI [of _ y] exI [of _ z]) simp
qed

lemma block_shaped_no_identity:
  "block_shaped cin cout strd grps self \<Longrightarrow> \<not> (cout = cin \<and> strd = 1) \<Longrightarrow> rbr_identity self = None"
  by (cases "rbr_identity self") (auto dest: block_shapedD(19))

section \<open>The claims about the detector\<close>

text \<open>
  C6. A size that is not a multiple of 64 makes the constructor raise the size
  \<^verbatim>\<open>ValueError\<close>, whatever the other arguments are and whatever building the
  backbone and the neck would do (so before the backbone, the neck or the head are
  looked at); a size that is a multiple of 64 passes the check of the parameter
  block and no size error is raised.
\<close>

theorem Detector_size_check:
  "(sz mod 64 \<noteq> 0 \<longrightarrow>
      Detector_params sz ncls = Inl (ValueError_size sz)
      \<and> Detector_init new_backbone new_neck sz ncls backbone_name neck_name
            = Inl (ValueError_size sz))
   \<and> (sz mod 64 = 0 \<longrightarrow>
      (\<exists>p. Detector_params sz ncls = Inr p)
      \<and> Detector_init new_backbone new_neck sz ncls backbone_name neck_name
            \<noteq> Inl (ValueError_size s))"
proof (intro conjI impI)
  assume "sz mod 64 \<noteq> 0"
  then show "Detector_params sz ncls = Inl (ValueError_size sz)"
    by (simp add: Detector_params_def)
next
  assume "sz mod 64 \<noteq> 0"
  then show "Detector_init new_backbone new_neck sz ncls backbone_name neck_name
                = Inl (ValueError_size sz)"
    by (rule Detector_init_size_error)
next
  assume "sz mod 64 = 0"
  then show "\<exists>p. Detector_params sz ncls = Inr p"
    by (simp add: Detector_params_def)
next
  assume "sz mod 64 = 0"
  then show "Detector_init new_backbone new_neck sz ncls backbone_name neck_name
                \<noteq> Inl (ValueError_size s)"
    using Detector_init_other_error
      [of sz new_backbone new_neck ncls backbone_name neck_name "ValueError_size s"]
    by auto
qed

theorem Detector_size_check_witness:
  "(100::int) mod 64 \<noteq> 0
   \<and> Detector_init (\<lambda>_. Some ''no weights'') (\<lambda>_ _ _ _. None) 100 21
         ''no such backbone'' ''no such neck'' = Inl (ValueError_size 100)
   \<and> (320::int) mod 64 = 0
   \<and> (\<exists>p. Detector_params 320 21 = Inr p)
   \<and> Detector_init (\<lambda>_. None) (\<lambda>_ _ _ _. None) 320 21 ''repvgg'' ''pafpn''
         \<noteq> Inl (ValueError_size 320)"
  using Detector_size_check [of 100 21 "\<lambda>_. Some ''no weights''" "\<lambda>_ _ _ _. None"
      "''no such backbone''" "''no such neck''" 100]
    Detector_size_check [of 320 21 "\<lambda>_. None" "\<lambda>_ _ _ _. None" "''repvgg''" "''pafpn''" 320]
  by simp

text \<open>
  C8. A detector that has been built has 4 pyramid levels when the size is below
  512 and 5 levels from 512 on, and as many location layers and confidence layers
  as levels.
\<close>

theorem Detector_fpn_level:
  assumes "Detector_init new_backbone new_neck sz ncls backbone_name neck_name = Inr d"
  shows "(sz < 512 \<longrightarrow> fpn_level d = 4 \<and> length (loc d) = 4 \<and> length (conf d) = 4)
       \<and> (512 \<le> sz \<longrightarrow> fpn_level d = 5 \<and> length (loc d) = 5 \<and> length (conf d) = 5)"
proof -
  note r = Detector_init_Inr [OF assms]
  have lv: "fpn_level d = (if sz < 512 then 4 else 5)"
    using r by blast
  have mb: "multibox (fpn_level d) 6 (ncls - 1) (fea_channel d) = Inr (loc d, conf d)"
    using r by blast
  have "length (loc d) = fpn_level d" "length (conf d) = fpn_level d"
    using multibox_Inr [OF mb] by (metis length_replicate)+
  with lv show ?thesis by simp
qed

theorem Detector_fpn_level_witness:
  "\<exists>d4 d5. Detector_init (\<lambda>_. None) (\<lambda>_ _ _ _. None) 448 21 ''repvgg'' ''pafpn'' = Inr d4
     \<and> Detector_init (\<lambda>_. None) (\<lambda>_ _ _ _. None) 512 21 ''repvgg'' ''pafpn'' = Inr d5
     \<and> fpn_level d4 = 4 \<and> length (loc d4) = 4 \<and> length (conf d4) = 4
     \<and> fpn_level d5 = 5 \<and> length (loc d5) = 5 \<and> length (conf d5) = 5"
proof -
  obtain d4 where
    d4: "Detector_init (\<lambda>_. None) (\<lambda>_ _ _ _. None) 448 21 ''repvgg'' ''pafpn'' = Inr d4"
    by (simp add: Detector_init_def Detector_params_def select_backbone_def select_neck_def
        multibox_def nn_Conv2d_def numeral_nat)
  obtain d5 where
    d5: "Detector_init (\<lambda>_. None) (\<lambda>_ _ _ _. None) 512 21 ''repvgg'' ''pafpn'' = Inr d5"
    by (simp add: Detector_init_def Detector_params_def select_backbone_def select_neck_def
        multibox_def nn_Conv2d_def numeral_nat)
  from Detector_fpn_level [OF d4] Detector_fpn_level [OF d5] d4 d5
  show ?thesis by simp
qed

text \<open>
  C7. Constructing the detector with a class count of zero never returns a
  detector: whatever the size, the names, and the outcome of building the backbone
  and the neck, \<^verbatim>\<open>Detector.__init__\<close> ends in one of six exceptions. The class count
  itself is not tested by the constructor, whose parameter block stores
  \<^verbatim>\<open>num_classes - 1 = -1\<close>; when the size is accepted and backbone and neck are
  selected and built, the construction is stopped in \<^verbatim>\<open>multibox\<close>, where the first
  confidence layer is requested with \<open>6 * (-1) = -6\<close> output channels and the tensor
  library refuses the negative dimension, so that no head and no detector object
  come into being.
\<close>

theorem Detector_zero_classes:
  "(\<exists>e. Detector_init new_backbone new_neck sz 0 backbone_name neck_name = Inl e
        \<and> (e = ValueError_size sz \<or> e = ValueError_backbone backbone_name
             \<or> (\<exists>msg. e = Error_in_backbone msg) \<or> e = ValueError_neck neck_name
             \<or> (\<exists>msg. e = Error_in_neck msg)
             \<or> e = RuntimeError_negative_dimension (- 6)))
   \<and> (sz mod 64 = 0 \<longrightarrow> select_backbone backbone_name = Inr (bk, ch, fea) \<longrightarrow>
        new_backbone bk = None \<longrightarrow> select_neck neck_name = Inr nk \<longrightarrow>
        new_neck nk (if sz < 512 then 4 else 5) ch fea = None \<longrightarrow>
          Detector_params sz 0 = Inr (if sz < 512 then 4 else 5, - 1, 6)
          \<and> multibox (if sz < 512 then 4 else 5) 6 (- 1) fea
                = Inl (RuntimeError_negative_dimension (- 6))
          \<and> Detector_init new_backbone new_neck sz 0 backbone_name neck_name
                = Inl (RuntimeError_negative_dimension (- 6)))"
proof (intro conjI impI)
  let ?D = "Detector_init new_backbone new_neck sz 0 backbone_name neck_name"
  let ?fpn = "(if sz < 512 then 4 else 5) :: nat"
  show "\<exists>e. ?D = Inl e
        \<and> (e = ValueError_size sz \<or> e = ValueError_backbone backbone_name
             \<or> (\<exists>msg. e = Error_in_backbone msg) \<or> e = ValueError_neck neck_name
             \<or> (\<exists>msg. e = Error_in_neck msg)
             \<or> e = RuntimeError_negative_dimension (- 6))"
  proof (cases "sz mod 64 = 0")
    case False
    then have "?D = Inl (ValueError_size sz)" by (rule Detector_init_size_error)
    then show ?thesis by simp
  next
    case True
    then have p: "Detector_params sz 0 = Inr (?fpn, - 1, 6)"
      by (simp add: Detector_params_def)
    show ?thesis
    proof (cases "select_backbone backbone_name")
      case (Inl e1)
      then have "?D = Inl (ValueError_backbone backbone_name)"
        using p select_backbone_error [OF Inl] by (simp add: Detector_init_def)
      then show ?thesis by simp
    next
      case bb: (Inr t)
      obtain bk' ch' fea' where t: "t = (bk', ch', fea')" by (cases t)
      have mb: "multibox ?fpn 6 (- 1) fea' = Inl (RuntimeError_negative_dimension (- 6))"
        by (rule multibox_zero_classes) (use bb t select_backbone_fea in blast)
      show ?thesis
      proof (cases "new_backbone bk'")
        case (Some msg)
        then have "?D = Inl (Error_in_backbone msg)"
          using p bb t by (simp add: Detector_init_def)
        then show ?thesis by simp
      next
        case nb: None
        show ?thesis
        proof (cases "select_neck neck_name")
          case (Inl e2)
          then have "?D = Inl (ValueError_neck neck_name)"
            using p bb t nb select_neck_error [OF Inl] by (simp add: Detector_init_def)
          then show ?thesis by simp
        next
          case sn: (Inr nk')
          show ?thesis
          proof (cases "new_neck nk' ?fpn ch' fea'")
            case (Some msg)
            then have "?D = Inl (Error_in_neck msg)"
              using p bb t nb sn by (simp add: Detector_init_def)
            then show ?thesis by simp
          next
            case None
            then have "?D = Inl (RuntimeError_negative_dimension (- 6))"
              using p bb t nb sn mb by (simp add: Detector_init_def)
            then show ?thesis by simp
          qed
        qed
      qed
    qed
  qed
next
  assume "sz mod 64 = 0"
  then show "Detector_params sz 0 = Inr (if sz < 512 then 4 else 5, - 1, 6)"
    by (simp add: Detector_params_def)
next
  assume "select_backbone backbone_name = Inr (bk, ch, fea)"
  then show "multibox (if sz < 512 then 4 else 5) 6 (- 1) fea
               = Inl (RuntimeError_negative_dimension (- 6))"
    by (intro multibox_zero_classes) (rule select_backbone_fea)
next
  assume a: "sz mod 64 = 0" "select_backbone backbone_name = Inr (bk, ch, fea)"
    "new_backbone bk = None" "select_neck neck_name = Inr nk"
    "new_neck nk (if sz < 512 then 4 else 5) ch fea = None"
  have p: "Detector_params sz 0 = Inr (if sz < 512 then 4 else 5, - 1, 6)"
    using a(1) by (simp add: Detector_params_def)
  have mb: "multibox (if sz < 512 then 4 else 5) 6 (- 1) fea
              = Inl (RuntimeError_negative_dimension (- 6))"
    by (intro multibox_zero_classes) (rule select_backbone_fea [OF a(2)])
  show "Detector_init new_backbone new_neck sz 0 backbone_name neck_name
          = Inl (RuntimeError_negative_dimension (- 6))"
    using p a(2-5) mb by (simp add: Detector_init_def)
qed

theorem Detector_zero_classes_witness:
  "(320::int) mod 64 = 0
   \<and> select_backbone ''repvgg'' = Inr (REPVGGBackbone, (384, 1408), 256)
   \<and> select_neck ''pafpn'' = Inr PAFPNNeck
   \<and> Detector_init (\<lambda>_. None) (\<lambda>_ _ _ _. None) 320 0 ''repvgg'' ''pafpn''
         = Inl (RuntimeError_negative_dimension (- 6))
   \<and> Detector_init (\<lambda>_. Some ''RepVGG-A2-train.pth not found'') (\<lambda>_ _ _ _. None)
         320 0 ''repvgg'' ''pafpn'' = Inl (Error_in_backbone ''RepVGG-A2-train.pth not found'')"
proof -
  have b: "select_backbone ''repvgg'' = Inr (REPVGGBackbone, (384, 1408), 256)"
    by (simp add: select_backbone_def)
  have n: "select_neck ''pafpn'' = Inr PAFPNNeck"
    by (simp add: select_neck_def)
  have m: "(320::int) mod 64 = 0" by simp
  have "Detector_init (\<lambda>_. None) (\<lambda>_ _ _ _. None) 320 0 ''repvgg'' ''pafpn''
          = Inl (RuntimeError_negative_dimension (- 6))"
    using Detector_zero_classes [of "\<lambda>_. None" "\<lambda>_ _ _ _. None" 320 "''repvgg''" "''pafpn''"
        REPVGGBackbone "(384, 1408)" 256 PAFPNNeck] m b n
    by simp
  moreover have "Detector_init (\<lambda>_. Some ''RepVGG-A2-train.pth not found'') (\<lambda>_ _ _ _. None)
         320 0 ''repvgg'' ''pafpn'' = Inl (Error_in_backbone ''RepVGG-A2-train.pth not found'')"
    by (simp add: Detector_init_def Detector_params_def b)
  ultimately show ?thesis using m b n by simp
qed

text \<open>
  C4. A detector built from a configuration with at least one object class (class
  count 2 or more, the background included) has six anchors per cell and, on every
  pyramid level, one location layer with \<open>6 * 4\<close> output channels and one confidence
  layer with \<open>6 * (num_classes - 1)\<close> output channels. On feature maps of batch size
  \<open>N\<close>, one per level, \<^verbatim>\<open>forward\<close> returns a location tensor of shape \<open>(N, A, 4)\<close> and
  a class tensor of shape \<open>(N, A, num_classes - 1)\<close>, \<open>A\<close> being six times the number
  of cells of all levels: the background class has no channel.
\<close>

theorem Detector_head_layout:
  fixes fea :: "'a tensor list"
  assumes "Detector_init new_backbone new_neck sz ncls backbone_name neck_name = Inr d"
    and "2 \<le> ncls"
    and "length fea = fpn_level d"
    and "0 < N"
    and "\<forall>x\<in>set fea. \<exists>h w. 0 < h \<and> 0 < w \<and> shape x = [N, nat (fea_channel d), h, w]"
    and "conv_like run"
  shows "num_anchors d = 6
       \<and> loc d = replicate (fpn_level d)
            \<lparr>conv_in = fea_channel d, conv_out = 6 * 4, conv_kernel = 3, conv_padding = 1\<rparr>
       \<and> conf d = replicate (fpn_level d)
            \<lparr>conv_in = fea_channel d, conv_out = 6 * (ncls - 1), conv_kernel = 3, conv_padding = 1\<rparr>
       \<and> (\<exists>lo co. Detector_forward run d fea = Inr (lo, co)
             \<and> shape lo = [N, 6 * cells fea, 4] \<and> wf_tensor lo
             \<and> shape co = [N, 6 * cells fea, nat (ncls - 1)] \<and> wf_tensor co)"
proof -
  note r = Detector_init_Inr [OF assms(1)]
  have na: "num_anchors d = 6" using r by blast
  have mb: "multibox (fpn_level d) 6 (ncls - 1) (fea_channel d) = Inr (loc d, conf d)"
    using r by blast
  from Detector_forward_spec [OF assms(1,2,3,4) _ assms(6)] assms(5)
  obtain lo co where "Detector_forward run d fea = Inr (lo, co)"
    "shape lo = [N, 6 * cells fea, 4]" "wf_tensor lo"
    "shape co = [N, 6 * cells fea, nat (ncls - 1)]" "wf_tensor co"
    by blast
  then show ?thesis using na multibox_Inr [OF mb] by simp
qed

theorem Detector_head_layout_witness:
  "\<exists>d lo co. Detector_init (\<lambda>_. None) (\<lambda>_ _ _ _. None) 320 21 ''repvgg'' ''pafpn'' = Inr d
      \<and> Detector_forward index_conv d
           [feature_map 1 256 40 40, feature_map 1 256 20 20,
            feature_map 1 256 10 10, feature_map 1 256 5 5] = Inr (lo, co)
      \<and> length (loc d) = 4 \<and> length (conf d) = 4
      \<and> shape lo = [1, 12750, 4] \<and> shape co = [1, 12750, 20]"
proof -
  let ?fea = "[feature_map 1 256 40 40, feature_map 1 256 20 20,
               feature_map 1 256 10 10, feature_map 1 256 5 5]"
  obtain d where
    d: "Detector_init (\<lambda>_. None) (\<lambda>_ _ _ _. None) 320 21 ''repvgg'' ''pafpn'' = Inr d"
    and lv: "fpn_level d = 4" and fc: "fea_channel d = 256"
    using Detector_init_320 by blast
  have len: "length ?fea = fpn_level d" by (simp add: lv)
  have fsh: "\<forall>x\<in>set ?fea. \<exists>h w. 0 < h \<and> 0 < w \<and> shape x = [1, nat (fea_channel d), h, w]"
    unfolding fc by (rule pyramid_320)
  have "(2::int) \<le> 21" "(0::nat) < 1" by simp_all
  from Detector_head_layout [OF d this(1) len this(2) fsh index_conv_like]
  show ?thesis
    unfolding cells_pyramid_320 lv using d by auto
qed

text \<open>
  C5. The anchor dimension of both outputs of \<^verbatim>\<open>forward\<close> follows the anchor order:
  the anchor of level \<open>k\<close> (in the order in which the neck lists its feature maps),
  row \<open>y\<close>, column \<open>x\<close> and shape \<open>a\<close> sits at \<open>anchor_index fea k y x a\<close>, levels
  first, then cells in row-major order, then the six shapes. Its four offsets are
  the channels \<open>4a .. 4a+3\<close> of the location layer of level \<open>k\<close> at that cell, and
  its class scores the channels \<open>(num_classes-1) a ..\<close> of the confidence layer. The
  index depends on the sizes of the feature maps only.
\<close>

theorem Detector_forward_order:
  fixes fea :: "'a tensor list"
  assumes "Detector_init new_backbone new_neck sz ncls backbone_name neck_name = Inr d"
    and "2 \<le> ncls"
    and "length fea = fpn_level d"
    and "0 < N"
    and "\<forall>x\<in>set fea. \<exists>h w. 0 < h \<and> 0 < w \<and> shape x = [N, nat (fea_channel d), h, w]"
    and "conv_like run"
    and "k < length fea" "n < N" "y < shape (fea ! k) ! 2" "x < shape (fea ! k) ! 3" "a < 6"
  shows "\<exists>lo co lx cx. Detector_forward run d fea = Inr (lo, co)
           \<and> run (loc d ! k) (fea ! k) = Inr lx
           \<and> run (conf d ! k) (fea ! k) = Inr cx
           \<and> anchor_index fea k y x a < 6 * cells fea
           \<and> (\<forall>j<4. at3 lo n (anchor_index fea k y x a) j = at4 lx n (a * 4 + j) y x)
           \<and> (\<forall>j<nat (ncls - 1).
                 at3 co n (anchor_index fea k y x a) j = at4 cx n (a * nat (ncls - 1) + j) y x)"
proof -
  from Detector_forward_spec [OF assms(1,2,3,4) _ assms(6)] assms(5)
  obtain lo co where fw: "Detector_forward run d fea = Inr (lo, co)"
    and el: "\<forall>k<length fea. \<forall>n<N. \<forall>y<shape (fea ! k) ! 2. \<forall>x<shape (fea ! k) ! 3. \<forall>a<6.
                (\<forall>j<4. \<exists>lx. run (loc d ! k) (fea ! k) = Inr lx \<and>
                   at3 lo n (6 * cells (take k fea) + ((y * (shape (fea ! k) ! 3) + x) * 6 + a)) j
                     = at4 lx n (a * 4 + j) y x)
              \<and> (\<forall>j<nat (ncls - 1). \<exists>cx. run (conf d ! k) (fea ! k) = Inr cx \<and>
                   at3 co n (6 * cells (take k fea) + ((y * (shape (fea ! k) ! 3) + x) * 6 + a)) j
                     = at4 cx n (a * nat (ncls - 1) + j) y x)"
    by blast
  from el assms(7-11)
  have e1: "\<forall>j<4. \<exists>lx. run (loc d ! k) (fea ! k) = Inr lx \<and>
              at3 lo n (anchor_index fea k y x a) j = at4 lx n (a * 4 + j) y x"
    and e2: "\<forall>j<nat (ncls - 1). \<exists>cx. run (conf d ! k) (fea ! k) = Inr cx \<and>
              at3 co n (anchor_index fea k y x a) j = at4 cx n (a * nat (ncls - 1) + j) y x"
    unfolding anchor_index_def by blast+
  from e1 obtain lx where lx: "run (loc d ! k) (fea ! k) = Inr lx" by fastforce
  have "0 < nat (ncls - 1)" using assms(2) by simp
  with e2 obtain cx where cx: "run (conf d ! k) (fea ! k) = Inr cx" by fastforce
  show ?thesis
    using fw lx cx e1 e2 anchor_index_bound [OF assms(7,9,10,11)]
    by (intro exI [of _ lo] exI [of _ co] exI [of _ lx] exI [of _ cx]) auto
qed

theorem Detector_forward_order_witness:
  "\<exists>d lo co lx. Detector_init (\<lambda>_. None) (\<lambda>_ _ _ _. None) 320 21 ''repvgg'' ''pafpn'' = Inr d
      \<and> Detector_forward index_conv d
           [feature_map 1 256 40 40, feature_map 1 256 20 20,
            feature_map 1 256 10 10, feature_map 1 256 5 5] = Inr (lo, co)
      \<and> index_conv (loc d ! 1) (feature_map 1 256 20 20) = Inr lx
      \<and> at3 lo 0 9862 1 = at4 lx 0 17 2 3 \<and> at4 lx 0 17 2 3 = 6843"
proof -
  let ?fea = "[feature_map 1 256 40 40, feature_map 1 256 20 20,
               feature_map 1 256 10 10, feature_map 1 256 5 5]"
  obtain d where
    d: "Detector_init (\<lambda>_. None) (\<lambda>_ _ _ _. None) 320 21 ''repvgg'' ''pafpn'' = Inr d"
    and lv: "fpn_level d = 4" and fc: "fea_channel d = 256"
    and l1: "loc d ! 1 = \<lparr>conv_in = 256, conv_out = 24, conv_kernel = 3, conv_padding = 1\<rparr>"
    using Detector_init_320 by blast
  have len: "length ?fea = fpn_level d" by (simp add: lv)
  have fsh: "\<forall>x\<in>set ?fea. \<exists>h w. 0 < h \<and> 0 < w \<and> shape x = [1, nat (fea_channel d), h, w]"
    unfolding fc by (rule pyramid_320)
  have lx: "index_conv (loc d ! 1) (feature_map 1 256 20 20)
              = Inr \<lparr>shape = [1, 24, 20, 20], data = [0..<9600]\<rparr>"
    unfolding l1 by (simp add: index_conv_def feature_map_def)
  have v: "at4 \<lparr>shape = [1, 24, 20, 20], data = [0..<9600]\<rparr> 0 17 2 3 = 6843"
    by (simp add: at4_def)
  have ai: "anchor_index ?fea 1 2 3 4 = 9862"
    by (simp add: anchor_index_def cells_def feature_map_def)
  have h: "(2::int) \<le> 21" "(0::nat) < 1" "1 < length ?fea" "(0::nat) < 1"
    "2 < shape (?fea ! 1) ! 2" "3 < shape (?fea ! 1) ! 3" "(4::nat) < 6"
    by (simp_all add: feature_map_def)
  from Detector_forward_order [OF d h(1) len h(2) fsh index_conv_like h(3-7)]
  obtain lo co lx where "Detector_forward index_conv d ?fea = Inr (lo, co)"
    "index_conv (loc d ! 1) (?fea ! 1) = Inr lx"
    "\<forall>j<4. at3 lo 0 (anchor_index ?fea 1 2 3 4) j = at4 lx 0 (4 * 4 + j) 2 3"
    by blast
  then show ?thesis using d lx v unfolding ai by auto
qed

section \<open>The claims about post-processing\<close>

text \<open>
  C3. For every object class \<open>j\<close> from 1 to \<open>num_classes - 1\<close> of an image, the array
  handed to \<^verbatim>\<open>nms\<close> consists of exactly the boxes whose score for that class is
  strictly above \<open>thresh = 0.005\<close>, in their order, each with its score, and the
  entry of the class becomes the array of the rows that \<^verbatim>\<open>nms\<close> keeps of it; when no
  score of the class is above the threshold, \<^verbatim>\<open>nms\<close> is not called and the entry of
  the class becomes the array without rows, \<^verbatim>\<open>np.empty([0, 5])\<close>, in place of the list
  it was created as. Only the entry of the background, class 0, is still that list
  after the loop. (The score matrix has \<open>num_classes - 1\<close> columns and as many rows as
  there are boxes, and \<^verbatim>\<open>nms\<close> returns row indices of its argument.)
\<close>

theorem score_thresholding:
  assumes "length boxes = length scores"
    and "\<forall>r\<in>set scores. length r = nc - 1"
    and "\<forall>ds. \<forall>k\<in>set (nms ds nms_thresh). k < length ds"
  shows "thresh = 5 / 1000
       \<and> (\<exists>out. detect_classes nms nms_thresh nc boxes scores = Inr out \<and> length out = nc
            \<and> (0 < nc \<longrightarrow> out ! 0 = PyList)
            \<and> (\<forall>j. 1 \<le> j \<and> j < nc \<longrightarrow>
                 (let col = map (\<lambda>r. r ! (j - 1)) scores;
                      cands = filter (\<lambda>d. thresh < snd d) (zip boxes col)
                  in nms_candidates boxes col = Inr (if cands = [] then None else Some cands)
                     \<and> out ! j = (if cands = [] then Array []
                                   else Array (map (\<lambda>k. cands ! k) (nms cands nms_thresh)))
                     \<and> out ! j \<noteq> PyList)))"
proof -
  define C where "C j = map (\<lambda>r. r ! (j - 1)) scores" for j :: nat
  define K where "K j = filter (\<lambda>d. thresh < snd d) (zip boxes (C j))" for j
  define R where "R j = map (\<lambda>k. K j ! k) (nms (K j) nms_thresh)" for j
  define F where "F j = (if K j = [] then Array [] else Array (R j))" for j
  have lc: "length boxes = length (C j)" for j by (simp add: C_def assms(1))
  have nm: "\<And>ds k. k \<in> set (nms ds nms_thresh) \<Longrightarrow> k < length ds" using assms(3) by blast
  have col: "column scores (j - 1) = Inr (C j)" if "1 \<le> j" "j < nc" for j
    unfolding C_def by (rule column_ok) (use assms(2) that in auto)
  have nc: "nms_candidates boxes (C j) = Inr (if K j = [] then None else Some (K j))" for j
    unfolding K_def by (rule nms_candidates_spec [OF lc])
  have tr: "take_rows (K j) (nms (K j) nms_thresh) = Inr (R j)" for j
    unfolding R_def by (rule take_rows_ok) (rule nm)
  have "\<exists>out. class_loop nms nms_thresh boxes scores [1..<nc] (replicate nc PyList) = Inr out
          \<and> length out = length (replicate nc PyList)
          \<and> (\<forall>i<length (replicate nc PyList).
                out ! i = (if i \<in> set [1..<nc] then (if K i = [] then Array [] else Array (R i))
                           else replicate nc PyList ! i))"
    by (rule class_loop_spec [where C = C]) (use col nc tr in auto)
  then obtain out where o: "detect_classes nms nms_thresh nc boxes scores = Inr out"
    "length out = nc" "\<And>i. i < nc \<Longrightarrow> out ! i = (if 1 \<le> i then F i else PyList)"
    by (auto simp: detect_classes_def F_def)
  have oj: "out ! j = F j" if "1 \<le> j" "j < nc" for j using o(3) that by simp
  have o0: "0 < nc \<longrightarrow> out ! 0 = PyList" using o(3) [of 0] by simp
  have fj: "F j \<noteq> PyList" for j by (simp add: F_def)
  have "\<forall>j. 1 \<le> j \<and> j < nc \<longrightarrow>
          nms_candidates boxes (C j) = Inr (if K j = [] then None else Some (K j))
          \<and> out ! j = F j \<and> out ! j \<noteq> PyList"
    using nc oj fj by simp
  then have "\<forall>j. 1 \<le> j \<and> j < nc \<longrightarrow>
                 (let col = map (\<lambda>r. r ! (j - 1)) scores;
                      cands = filter (\<lambda>d. thresh < snd d) (zip boxes col)
                  in nms_candidates boxes col = Inr (if cands = [] then None else Some cands)
                     \<and> out ! j = (if cands = [] then Array []
                                   else Array (map (\<lambda>k. cands ! k) (nms cands nms_thresh)))
                     \<and> out ! j \<noteq> PyList)"
    unfolding F_def R_def K_def C_def Let_def .
  with o(1,2) o0 show ?thesis
    by (intro conjI exI [of _ out]) (simp_all add: thresh_def)
qed

theorem score_thresholding_witness:
  "\<exists>out. detect_classes (\<lambda>ds t. [0..<length ds]) (1 / 2) 3
            [(0, 0, 10, 10), (1, 1, 11, 11), (20, 20, 30, 30)]
            [[9 / 10, 1 / 1000], [5 / 1000, 2 / 1000], [3 / 10, 4 / 1000]] = Inr out
      \<and> length out = 3 \<and> out ! 0 = PyList
      \<and> out ! 1 = Array [((0, 0, 10, 10), 9 / 10), ((20, 20, 30, 30), 3 / 10)]
      \<and> out ! 2 = Array []"
proof -
  let ?nms = "\<lambda>(ds :: det list) (t :: real). [0..<length ds]"
  let ?B = "[(0, 0, 10, 10), (1, 1, 11, 11), (20, 20, 30, 30)] :: box list"
  let ?S = "[[9 / 10, 1 / 1000], [5 / 1000, 2 / 1000], [3 / 10, 4 / 1000]] :: real list list"
  have a: "length ?B = length ?S" by simp
  have b: "\<forall>r\<in>set ?S. length r = 3 - 1" by simp
  have c: "\<forall>ds. \<forall>k\<in>set (?nms ds (1 / 2)). k < length ds" by simp
  from score_thresholding [OF a b c]
  obtain out where o: "detect_classes ?nms (1 / 2) 3 ?B ?S = Inr out" "length out = 3"
    "(0::nat) < 3 \<longrightarrow> out ! 0 = PyList"
    and e: "\<forall>j. 1 \<le> j \<and> j < 3 \<longrightarrow>
                 (let col = map (\<lambda>r. r ! (j - 1)) ?S;
                      cands = filter (\<lambda>d. thresh < snd d) (zip ?B col)
                  in nms_candidates ?B col = Inr (if cands = [] then None else Some cands)
                     \<and> out ! j = (if cands = [] then Array []
                                   else Array (map (\<lambda>k. cands ! k) (?nms cands (1 / 2))))
                     \<and> out ! j \<noteq> PyList)"
    by blast
  have "out ! 1 = Array [((0, 0, 10, 10), 9 / 10), ((20, 20, 30, 30), 3 / 10)]"
    using e [rule_format, of 1] by (simp add: Let_def thresh_def upt_rec)
  moreover have "out ! 2 = Array []"
    using e [rule_format, of 2] by (simp add: Let_def thresh_def)
  ultimately show ?thesis using o by simp
qed

text \<open>
  C2, as the code has it. When an image has more than \<open>max_per_image = 300\<close>
  detections over its object classes, the cap computes the 300th highest score of
  the image and drops everything below it: every object class keeps exactly its
  detections that score at least that much, in their order, and no score below the
  300th highest is left. So the cap keeps the 300 highest scores and at least 300
  detections. It keeps exactly 300 precisely when the 301st highest score is
  strictly below the 300th; this is so whenever the scores are pairwise distinct,
  and then the scores kept are the 300 highest and no others.
\<close>

theorem cap_top_k:
  assumes "length ab = nc" and "max_per_image < total_dets nc ab"
  shows "\<exists>out. cap_image nc ab = Inr out \<and> length out = nc
           \<and> (\<forall>j. 1 \<le> j \<and> j < nc \<longrightarrow>
                 out ! j = filter (\<lambda>d. kth_highest max_per_image (image_scores nc ab) \<le> snd d)
                             (ab ! j))
           \<and> image_scores nc out
                = filter (\<lambda>s. kth_highest max_per_image (image_scores nc ab) \<le> s)
                    (image_scores nc ab)
           \<and> (\<forall>s\<in>set (image_scores nc out).
                 \<not> s < kth_highest max_per_image (image_scores nc ab))
           \<and> max_per_image \<le> total_dets nc out
           \<and> mset (take max_per_image (rev (sort (image_scores nc ab))))
                \<subseteq># mset (image_scores nc out)
           \<and> ((total_dets nc out = max_per_image)
                = (kth_highest (Suc max_per_image) (image_scores nc ab)
                     < kth_highest max_per_image (image_scores nc ab)))
           \<and> (distinct (image_scores nc ab) \<longrightarrow>
                total_dets nc out = max_per_image
                \<and> mset (image_scores nc out)
                    = mset (take max_per_image (rev (sort (image_scores nc ab)))))"
proof -
  let ?m = max_per_image
  let ?T = "kth_highest ?m (image_scores nc ab)"
  let ?out = "keep_above ?T [1..<nc] ab"
  note s = cap_at_spec [OF assms(1) max_per_image_pos assms(2)]
  have n: "?m < length (image_scores nc ab)" using assms(2) by (simp add: total_dets_def)
  have d: "total_dets nc ?out = ?m" if "distinct (image_scores nc ab)"
    using s(4) kth_highest_distinct [OF max_per_image_pos n that] by simp
  have e: "?out ! j = filter (\<lambda>d. ?T \<le> snd d) (ab ! j)" if "1 \<le> j" "j < nc" for j
    using keep_above_nth [OF assms(1) that(2), of ?T] that(1) by simp
  have l: "length ?out = nc" by (simp add: length_keep_above assms(1))
  have b: "\<forall>s\<in>set (image_scores nc ?out). \<not> s < ?T"
    unfolding s(2) by auto
  have c: "cap_image nc ab = Inr ?out" using s(1) by (simp add: cap_image_def)
  have p1: "\<forall>j. 1 \<le> j \<and> j < nc \<longrightarrow> ?out ! j = filter (\<lambda>d. ?T \<le> snd d) (ab ! j)"
    using e by simp
  have p2: "distinct (image_scores nc ab) \<longrightarrow>
                total_dets nc ?out = ?m
                \<and> mset (image_scores nc ?out) = mset (take ?m (rev (sort (image_scores nc ab))))"
    using d s(6) by blast
  show ?thesis
    using c l p1 s(2) b s(3) s(5) s(4) p2
    by (intro exI [of _ ?out] conjI)
qed

theorem cap_top_k_witness:
  "length ([[], ((0, 0, 1, 1), 1 / 10) # replicate 300 ((0, 0, 1, 1), 9 / 10)] :: det list list) = 2
   \<and> max_per_image < total_dets 2 [[], ((0, 0, 1, 1), 1 / 10) # replicate 300 ((0, 0, 1, 1), 9 / 10)]
   \<and> (\<exists>out. cap_image 2 [[], ((0, 0, 1, 1), 1 / 10) # replicate 300 ((0, 0, 1, 1), 9 / 10)] = Inr out
          \<and> out ! 1 = replicate 300 ((0, 0, 1, 1), 9 / 10)
          \<and> total_dets 2 out = 300)"
proof -
  let ?b = "(0, 0, 1, 1) :: box"
  let ?ab = "[[], (?b, 1 / 10) # replicate 300 (?b, 9 / 10)]"
  have l: "length ?ab = 2" by simp
  have t: "max_per_image < total_dets 2 ?ab"
    using one_low_300(1) [of ?b] by (simp add: max_per_image_def)
  have k: "kth_highest max_per_image (image_scores 2 ?ab) = 9 / 10"
    "kth_highest (Suc max_per_image) (image_scores 2 ?ab) = 1 / 10"
    using one_low_300(2,3) [of ?b] by (simp_all add: max_per_image_def)
  from cap_top_k [OF l t] obtain out where o: "cap_image 2 ?ab = Inr out"
    and e: "\<forall>j. 1 \<le> j \<and> j < 2 \<longrightarrow>
              out ! j = filter (\<lambda>d. kth_highest max_per_image (image_scores 2 ?ab) \<le> snd d)
                          (?ab ! j)"
    and x: "(total_dets 2 out = max_per_image)
              = (kth_highest (Suc max_per_image) (image_scores 2 ?ab)
                   < kth_highest max_per_image (image_scores 2 ?ab))"
    by (elim exE conjE)
  have "out ! 1 = replicate 300 (?b, 9 / 10)"
    using e [rule_format, of 1] unfolding k by simp
  moreover have "total_dets 2 out = 300"
    using x unfolding k by (simp add: max_per_image_def)
  ultimately show ?thesis using l t o by blast
qed

text \<open>
  C2, as the claim states it, would give exactly 300 detections for every image with
  more than 300. With 301 detections of one class, all of score \<open>0.5\<close>, the cap
  returns all 301.
\<close>

theorem cap_top_k_counterexample:
  "total_dets 2 [[], replicate 301 ((0, 0, 1, 1), 1 / 2)] = 301
   \<and> cap_image 2 [[], replicate 301 ((0, 0, 1, 1), 1 / 2)]
       = Inr [[], replicate 301 ((0, 0, 1, 1), 1 / 2)]"
proof -
  let ?d = "((0, 0, 1, 1), 1 / 2) :: det"
  let ?ab = "[[], replicate 301 ?d]"
  have t: "total_dets 2 ?ab = 301" by (rule tied_301(1))
  have "cap_at 300 2 ?ab = Inr (keep_above (kth_highest 300 (image_scores 2 ?ab)) [1..<2] ?ab)"
    by (rule cap_at_spec(1)) (simp_all add: t)
  also have "kth_highest 300 (image_scores 2 ?ab) = 1 / 2"
    using tied_301(2) [of ?d] by simp
  finally have "cap_at 300 2 ?ab = Inr (keep_above (1 / 2) [1..<2] ?ab)" .
  then have "cap_at 300 2 ?ab = Inr ?ab"
    unfolding keep_above_2 by simp
  then show ?thesis using t by (simp add: cap_image_def max_per_image_def)
qed

text \<open>
  C9. The cap keeps, in every object class, exactly the detections whose score is at
  least the \<open>max_per_image\<close>-th highest score of the image; a detection whose score
  equals that threshold is kept. The output has more than \<open>max_per_image\<close> detections
  precisely when the next score down, the \<open>(max_per_image + 1)\<close>-th highest, ties
  with the threshold.
\<close>

theorem cap_keeps_ties:
  assumes "length ab = nc" and "max_per_image < total_dets nc ab"
  shows "\<exists>out. cap_image nc ab = Inr out \<and> length out = nc
           \<and> (\<forall>j. 1 \<le> j \<and> j < nc \<longrightarrow>
                 out ! j = filter (\<lambda>d. kth_highest max_per_image (image_scores nc ab) \<le> snd d)
                             (ab ! j)
                 \<and> (\<forall>d\<in>set (ab ! j).
                       snd d = kth_highest max_per_image (image_scores nc ab) \<longrightarrow> d \<in> set (out ! j)))
           \<and> ((max_per_image < total_dets nc out)
                = (kth_highest (Suc max_per_image) (image_scores nc ab)
                     = kth_highest max_per_image (image_scores nc ab)))"
proof -
  let ?m = max_per_image
  let ?T = "kth_highest ?m (image_scores nc ab)"
  let ?out = "keep_above ?T [1..<nc] ab"
  note s = cap_at_spec [OF assms(1) max_per_image_pos assms(2)]
  have n: "?m < length (image_scores nc ab)" using assms(2) by (simp add: total_dets_def)
  have e: "?out ! j = filter (\<lambda>d. ?T \<le> snd d) (ab ! j)" if "1 \<le> j" "j < nc" for j
    using keep_above_nth [OF assms(1) that(2), of ?T] that(1) by simp
  have t: "(?m < total_dets nc ?out) = (kth_highest (Suc ?m) (image_scores nc ab) = ?T)"
    using s(3,4) kth_highest_mono [OF max_per_image_pos n] by linarith
  have "cap_image nc ab = Inr ?out" using s(1) by (simp add: cap_image_def)
  moreover have "length ?out = nc" by (simp add: length_keep_above assms(1))
  ultimately show ?thesis
    using e t by (intro exI [of _ ?out]) auto
qed

theorem cap_keeps_ties_witness:
  "length ([[], replicate 301 ((0, 0, 1, 1), 1 / 2)] :: det list list) = 2
   \<and> max_per_image < total_dets 2 [[], replicate 301 ((0, 0, 1, 1), 1 / 2)]
   \<and> (\<exists>out. cap_image 2 [[], replicate 301 ((0, 0, 1, 1), 1 / 2)] = Inr out
          \<and> out ! 1 = replicate 301 ((0, 0, 1, 1), 1 / 2)
          \<and> max_per_image < total_dets 2 out)"
proof -
  let ?d = "((0, 0, 1, 1), 1 / 2) :: det"
  let ?ab = "[[], replicate 301 ?d]"
  have l: "length ?ab = 2" by simp
  have t: "max_per_image < total_dets 2 ?ab"
    using tied_301(1) [of ?d] by (simp add: max_per_image_def)
  have k: "kth_highest max_per_image (image_scores 2 ?ab) = 1 / 2"
    "kth_highest (Suc max_per_image) (image_scores 2 ?ab) = 1 / 2"
    using tied_301(2,3) [of ?d] by (simp_all add: max_per_image_def)
  from cap_keeps_ties [OF l t] obtain out where o: "cap_image 2 ?ab = Inr out"
    and e: "\<forall>j. 1 \<le> j \<and> j < 2 \<longrightarrow>
              out ! j = filter (\<lambda>d. kth_highest max_per_image (image_scores 2 ?ab) \<le> snd d) (?ab ! j)
              \<and> (\<forall>d\<in>set (?ab ! j).
                    snd d = kth_highest max_per_image (image_scores 2 ?ab) \<longrightarrow> d \<in> set (out ! j))"
    and x: "(max_per_image < total_dets 2 out)
              = (kth_highest (Suc max_per_image) (image_scores 2 ?ab)
                   = kth_highest max_per_image (image_scores 2 ?ab))"
    by blast
  have "out ! 1 = replicate 301 ?d"
    using e [rule_format, of 1] unfolding k by simp
  moreover have "max_per_image < total_dets 2 out"
    using x unfolding k by simp
  ultimately show ?thesis using l t o by blast
qed

section \<open>The claims about the RepVGG block\<close>

text \<open>
  C1, where the code departs from it. A block in training form with as many output
  as input channels, stride 1 and \<open>g\<close> groups, \<open>1 < g < c\<close>, has an identity branch
  and a working forward pass, but \<^verbatim>\<open>repvgg_convert\<close> returns no kernel for it: the
  kernel built for the identity branch has shape \<open>(c, c, 3, 3)\<close>, the fused dense
  kernel \<open>(c, c / g, 3, 3)\<close>, and adding them raises the broadcasting \<^verbatim>\<open>ValueError\<close>.
\<close>

theorem repvgg_convert_grouped_identity:
  assumes "block_shaped c c 1 g self" and "1 < g" and "g < c"
    and "shp x = [n, c, h, w]" and "0 < h" and "0 < w"
  shows "(\<exists>y. RepVGGBlock_forward (Train self) x = Inr y \<and> shp y = [n, c, h, w])
       \<and> repvgg_convert self = Inl ValueError_broadcast"
proof -
  note d = block_shapedD [OF assms(1)]
  have one: "(0::nat) < 1" by simp
  obtain y where py: "pre_activation (Train self) x = Inr y"
    and sy: "shp y = [n, c, (h - 1) div 1 + 1, (w - 1) div 1 + 1]"
    using pre_activation_spec [OF assms(1,4,5,6) one] by metis
  have fw: "\<exists>y. RepVGGBlock_forward (Train self) x = Inr y \<and> shp y = [n, c, h, w]"
    using py sy assms(5,6) by (simp add: RepVGGBlock_forward_def bind_err_def relu_def)
  obtain idn where idn: "rbr_identity self = Some idn"
    using d(18) by (cases "rbr_identity self") auto
  from fused_branches [OF assms(1)]
  obtain k3 b3 k1 b1 p k2 b2 where
    f: "fuse_bn self (Some (Sequential (rbr_dense self))) = Inr (k3, b3)"
      "fuse_bn self (Some (Sequential (rbr_1x1 self))) = Inr (k1, b1)"
      "pad_1x1_to_3x3 (Some k1) = Inr p"
      "np_add k3 p = Inr k2" "np_add b3 b1 = Inr b2"
    and s2: "shp k2 = [c, c div g, 3, 3]"
    by metis
  from fuse_bn_BatchNorm2d [OF d(5), of idn] d(19) [OF idn]
  obtain kid bid where fi: "fuse_bn self (Some (BatchNorm2d idn)) = Inr (kid, bid)"
    and si: "shp kid = [c, c, 3, 3]"
    by metis
  have fi': "fuse_bn self (map_option BatchNorm2d (rbr_identity self)) = Inr (kid, bid)"
    using fi idn by simp
  have "np_add k2 kid = Inl ValueError_broadcast"
    using broadcast_shapes_grouped [OF assms(2,3) d(2)]
    by (simp add: np_add_def np_binop_def s2 si bind_err_def)
  then have "repvgg_convert self = Inl ValueError_broadcast"
    unfolding repvgg_convert_unfold [OF f(1,2) fi' f(3,4,5)] by (simp add: bind_err_def)
  with fw show ?thesis by simp
qed

theorem repvgg_convert_grouped_identity_witness:
  "\<exists>self y. RepVGGBlock_init 4 4 3 1 1 2 False (\<lambda>_. 1) (\<lambda>_. 1) = Inr (Train self)
      \<and> block_shaped 4 4 1 2 self
      \<and> RepVGGBlock_forward (Train self) \<lparr>shp = [1, 4, 2, 2], el = (\<lambda>_. 1)\<rparr> = Inr y
      \<and> shp y = [1, 4, 2, 2]
      \<and> repvgg_convert self = Inl ValueError_broadcast"
proof -
  let ?x = "\<lparr>shp = [1, 4, 2, 2], el = (\<lambda>_. 1)\<rparr> :: ndarray"
  obtain self0 where i: "RepVGGBlock_init 4 4 3 1 1 2 False (\<lambda>_. 1) (\<lambda>_. 1) = Inr (Train self0)"
    using RepVGGBlock_init_ok [of 2 4 4 1 "\<lambda>_. 1" "\<lambda>_. 1"] by auto
  from RepVGGBlock_init_train [OF i]
  have s: "block_shaped 4 4 1 2 self0" by auto
  have h: "(1::nat) < 2" "(2::nat) < 4" "shp ?x = [1, 4, 2, 2]" "(0::nat) < 2" "(0::nat) < 2"
    by simp_all
  from repvgg_convert_grouped_identity [OF s h]
  obtain y where "RepVGGBlock_forward (Train self0) ?x = Inr y" "shp y = [1, 4, 2, 2]"
    "repvgg_convert self0 = Inl ValueError_broadcast"
    by (elim exE conjE)
  with i s show ?thesis by blast
qed

text \<open>
  C10. The constructor gives a block in training form an identity branch exactly
  when it has as many output as input channels and stride 1. A block that changes
  the channel count or has another stride has none; then \<^verbatim>\<open>id_out\<close> is the number 0
  and the output before the activation is the sum of the dense and the \<open>1x1\<close>
  branch, \<^verbatim>\<open>_fuse_bn(None)\<close> is the pair of zeros, and \<^verbatim>\<open>repvgg_convert\<close> returns
  a kernel of shape \<open>(out, in / groups, 3, 3)\<close> and a bias of shape \<open>(out)\<close> that are
  the fused dense kernel and bias plus the padded fused \<open>1x1\<close> kernel and bias plus 0:
  forward and fusion both go through, for every number of groups.
\<close>

theorem identity_branch_invariant:
  "(RepVGGBlock_init cin cout ks strd pad grps False init3 init1 = Inr blk \<longrightarrow>
      (\<exists>self. blk = Train self \<and> block_shaped cin cout strd grps self
         \<and> ((rbr_identity self \<noteq> None) = (cout = cin \<and> strd = 1))))
   \<and> (block_shaped cin cout strd grps self \<and> \<not> (cout = cin \<and> strd = 1)
        \<and> shp x = [n, cin, h, w] \<and> 0 < h \<and> 0 < w \<and> 0 < strd \<longrightarrow>
      rbr_identity self = None
      \<and> fuse_bn self (map_option BatchNorm2d (rbr_identity self)) = Inr (scalar 0, scalar 0)
      \<and> (\<exists>d e y r K B.
            conv_bn_apply (rbr_dense self) x = Inr d
          \<and> conv_bn_apply (rbr_1x1 self) x = Inr e
          \<and> pre_activation (Train self) x = Inr y
          \<and> RepVGGBlock_forward (Train self) x = Inr r
          \<and> shp y = [n, cout, (h - 1) div strd + 1, (w - 1) div strd + 1]
          \<and> shp r = shp y
          \<and> (\<forall>i<n. \<forall>a<cout. \<forall>yy<(h - 1) div strd + 1. \<forall>xx<(w - 1) div strd + 1.
                 el y [i, a, yy, xx] = el d [i, a, yy, xx] + el e [i, a, yy, xx] + 0)
          \<and> repvgg_convert self = Inr (K, B)
          \<and> shp K = [cout, cin div grps, 3, 3] \<and> shp B = [cout]
          \<and> (\<forall>a<cout. \<forall>b<cin div grps. \<forall>c<3. \<forall>d<3.
                 el K [a, b, c, d]
                   = el (cv_weight (conv (rbr_dense self))) [a, b, c, d] * bn_scale (bn (rbr_dense self)) a
                     + (if c = 1 \<and> d = 1
                        then el (cv_weight (conv (rbr_1x1 self))) [a, b, 0, 0]
                             * bn_scale (bn (rbr_1x1 self)) a
                        else 0)
                     + 0)
          \<and> (\<forall>a<cout. el B [a]
                   = bn_shift (bn (rbr_dense self)) a + bn_shift (bn (rbr_1x1 self)) a + 0)))"
proof (intro conjI impI)
  assume "RepVGGBlock_init cin cout ks strd pad grps False init3 init1 = Inr blk"
  from RepVGGBlock_init_train [OF this]
  show "\<exists>self. blk = Train self \<and> block_shaped cin cout strd grps self
         \<and> ((rbr_identity self \<noteq> None) = (cout = cin \<and> strd = 1))"
    by metis
next
  assume a: "block_shaped cin cout strd grps self \<and> \<not> (cout = cin \<and> strd = 1)
        \<and> shp x = [n, cin, h, w] \<and> 0 < h \<and> 0 < w \<and> 0 < strd"
  then have bs: "block_shaped cin cout strd grps self" and x: "shp x = [n, cin, h, w]"
    and pos: "0 < h" "0 < w" "0 < strd" and ne: "\<not> (cout = cin \<and> strd = 1)"
    by simp_all
  show none: "rbr_identity self = None"
    by (rule block_shaped_no_identity [OF bs ne])
  show "fuse_bn self (map_option BatchNorm2d (rbr_identity self)) = Inr (scalar 0, scalar 0)"
    by (simp add: none fuse_bn_def)
  obtain d e y where d: "conv_bn_apply (rbr_dense self) x = Inr d"
    and e: "conv_bn_apply (rbr_1x1 self) x = Inr e"
    and py: "pre_activation (Train self) x = Inr y"
    and sy: "shp y = [n, cout, (h - 1) div strd + 1, (w - 1) div strd + 1]"
    and ey: "\<And>i a yy xx. i < n \<Longrightarrow> a < cout \<Longrightarrow> yy < (h - 1) div strd + 1 \<Longrightarrow>
            xx < (w - 1) div strd + 1 \<Longrightarrow>
            el y [i, a, yy, xx] = el d [i, a, yy, xx] + el e [i, a, yy, xx]
              + id_out_el self x i a yy xx"
    using pre_activation_spec [OF bs x pos] by metis
  obtain K B where cv: "repvgg_convert self = Inr (K, B)"
    and sK: "shp K = [cout, cin div grps, 3, 3]" and sB: "shp B = [cout]"
    and eK: "\<And>a b c d. a < cout \<Longrightarrow> b < cin div grps \<Longrightarrow> c < 3 \<Longrightarrow> d < 3 \<Longrightarrow>
            el K [a, b, c, d] = fused_kernel_el self a b c d"
    and eB: "\<And>a. a < cout \<Longrightarrow> el B [a] = fused_bias_el self a"
    using repvgg_convert_spec [OF bs disjI2 [OF none]] by metis
  have fw: "RepVGGBlock_forward (Train self) x = Inr (relu y)"
    by (simp add: RepVGGBlock_forward_def py bind_err_def)
  have i0: "id_out_el self x i a yy xx = 0" for i a yy xx
    by (simp add: id_out_el_def none)
  have k0: "fused_kernel_el self a b c d
      = el (cv_weight (conv (rbr_dense self))) [a, b, c, d] * bn_scale (bn (rbr_dense self)) a
        + (if c = 1 \<and> d = 1
           then el (cv_weight (conv (rbr_1x1 self))) [a, b, 0, 0] * bn_scale (bn (rbr_1x1 self)) a
           else 0)
        + 0" for a b c d
    by (simp add: fused_kernel_el_def none)
  have b0: "fused_bias_el self a
      = bn_shift (bn (rbr_dense self)) a + bn_shift (bn (rbr_1x1 self)) a + 0" for a
    by (simp add: fused_bias_el_def none)
  show "\<exists>d e y r K B.
            conv_bn_apply (rbr_dense self) x = Inr d
          \<and> conv_bn_apply (rbr_1x1 self) x = Inr e
          \<and> pre_activation (Train self) x = Inr y
          \<and> RepVGGBlock_forward (Train self) x = Inr r
          \<and> shp y = [n, cout, (h - 1) div strd + 1, (w - 1) div strd + 1]
          \<and> shp r = shp y
          \<and> (\<forall>i<n. \<forall>a<cout. \<forall>yy<(h - 1) div strd + 1. \<forall>xx<(w - 1) div strd + 1.
                 el y [i, a, yy, xx] = el d [i, a, yy, xx] + el e [i, a, yy, xx] + 0)
          \<and> repvgg_convert self = Inr (K, B)
          \<and> shp K = [cout, cin div grps, 3, 3] \<and> shp B = [cout]
          \<and> (\<forall>a<cout. \<forall>b<cin div grps. \<forall>c<3. \<forall>d<3.
                 el K [a, b, c, d]
                   = el (cv_weight (conv (rbr_dense self))) [a, b, c, d] * bn_scale (bn (rbr_dense self)) a
                     + (if c = 1 \<and> d = 1
                        then el (cv_weight (conv (rbr_1x1 self))) [a, b, 0, 0]
                             * bn_scale (bn (rbr_1x1 self)) a
                        else 0)
                     + 0)
          \<and> (\<forall>a<cout. el B [a]
                   = bn_shift (bn (rbr_dense self)) a + bn_shift (bn (rbr_1x1 self)) a + 0)"
    apply (rule exI [of _ d], rule exI [of _ e], rule exI [of _ y], rule exI [of _ "relu y"],
        rule exI [of _ K], rule exI [of _ B])
    apply (intro conjI allI impI)
    subgoal by (rule d)
    subgoal by (rule e)
    subgoal by (rule py)
    subgoal by (rule fw)
    subgoal by (rule sy)
    subgoal by (simp add: relu_def)
    subgoal for i a yy xx using ey [of i a yy xx] i0 by simp
    subgoal by (rule cv)
    subgoal by (rule sK)
    subgoal by (rule sB)
    subgoal for a b c d using eK [of a b c d] k0 [of a b c d] by simp
    subgoal for a using eB [of a] b0 [of a] by simp
    done
qed

theorem identity_branch_invariant_witness:
  "\<exists>self y K B. RepVGGBlock_init 2 4 3 2 1 1 False (\<lambda>_. 1) (\<lambda>_. 1) = Inr (Train self)
     \<and> block_shaped 2 4 2 1 self \<and> rbr_identity self = None
     \<and> pre_activation (Train self) \<lparr>shp = [1, 2, 4, 4], el = (\<lambda>_. 1)\<rparr> = Inr y
     \<and> shp y = [1, 4, 2, 2]
     \<and> repvgg_convert self = Inr (K, B) \<and> shp K = [4, 2, 3, 3] \<and> shp B = [4]"
proof -
  let ?x = "\<lparr>shp = [1, 2, 4, 4], el = (\<lambda>_. 1)\<rparr> :: ndarray"
  obtain blk where i: "RepVGGBlock_init 2 4 3 2 1 1 False (\<lambda>_. 1) (\<lambda>_. 1) = Inr blk"
    using RepVGGBlock_init_ok [of 1 2 4 2 "\<lambda>_. 1" "\<lambda>_. 1"] by auto
  note t1 = identity_branch_invariant [where cin = 2 and cout = 4 and ks = 3 and strd = 2
      and pad = 1 and grps = 1 and ?init3.0 = "\<lambda>_. 1" and ?init1.0 = "\<lambda>_. 1" and blk = blk,
      THEN conjunct1, THEN mp, OF i]
  then obtain self where b: "blk = Train self" and bs: "block_shaped 2 4 2 1 self"
    by (elim exE conjE)
  have h: "block_shaped 2 4 2 1 self \<and> \<not> ((4::nat) = 2 \<and> (2::nat) = 1)
        \<and> shp ?x = [1, 2, 4, 4] \<and> (0::nat) < 4 \<and> (0::nat) < 4 \<and> (0::nat) < 2"
    using bs by simp
  note t2 = identity_branch_invariant [where cin = 2 and cout = 4 and strd = 2 and grps = 1
      and self = self and x = ?x and n = 1 and h = 4 and w = 4, THEN conjunct2, THEN mp, OF h]
  then obtain d e y r K B where none: "rbr_identity self = None"
    and py: "pre_activation (Train self) ?x = Inr y"
    and sy: "shp y = [1, 4, (4 - 1) div 2 + 1, (4 - 1) div 2 + 1]"
    and cv: "repvgg_convert self = Inr (K, B)"
    and sK: "shp K = [4, 2 div 1, 3, 3]" and sB: "shp B = [4]"
    by (elim exE conjE)
  have sy': "shp y = [1, 4, 2, 2]" using sy by simp
  have sK': "shp K = [4, 2, 3, 3]" using sK by simp
  show ?thesis
    using i b bs none py sy' cv sK' sB by blast
qed

end
